theory Spec2Isabelle
  imports Main "HOL-Library.Char_ord" "HOL-Library.List_Lexorder" "HOL-Library.Multiset"
begin

section \<open>Python text\<close>

text \<open>
  A Python \<open>str\<close> is modelled as a \<open>string\<close>: one \<open>char\<close> per character of the
  text, the character being its code point. The model therefore covers text whose code
  points are below 256 (ASCII and Latin-1); \<open>length\<close> is Python's \<open>len\<close> and
  \<open>take n\<close> is the slice \<open>[:n]\<close>.
\<close>

text \<open>\<open>s.startswith(sub)\<close>.\<close>

fun startswith :: "string \<Rightarrow> string \<Rightarrow> bool" where
  "startswith [] s = True"
| "startswith (a # sub) [] = False"
| "startswith (a # sub) (c # s) = (a = c \<and> startswith sub s)"

text \<open>\<open>sub in s\<close> on two strings: \<open>sub\<close> occurs in \<open>s\<close> at some position.\<close>

fun str_in :: "string \<Rightarrow> string \<Rightarrow> bool" where
  "str_in sub [] = startswith sub []"
| "str_in sub (c # s) = (startswith sub (c # s) \<or> str_in sub s)"

text \<open>
  \<open>s.lower()\<close>, character by character: the letters \<open>A\<close> to \<open>Z\<close> and the upper-case
  letters of Latin-1 (code points 192 to 222 without the multiplication sign 215) move
  up by 32, every other character below 256 is its own lower case.
\<close>

definition lower_char :: "char \<Rightarrow> char" where
  "lower_char c =
     (let n = (of_char c :: nat)
      in if (65 \<le> n \<and> n \<le> 90) \<or> (192 \<le> n \<and> n \<le> 222 \<and> n \<noteq> 215)
         then char_of (n + 32) else c)"

definition lower :: "string \<Rightarrow> string" where
  "lower s = map lower_char s"

text \<open>
  \<open>s.strip()\<close> removes leading and trailing whitespace; below 256 the characters with
  \<open>isspace()\<close> are 9 to 13, 28 to 32, 133 and 160.
\<close>

definition isspace :: "char \<Rightarrow> bool" where
  "isspace c =
     (let n = (of_char c :: nat)
      in (9 \<le> n \<and> n \<le> 13) \<or> (28 \<le> n \<and> n \<le> 32) \<or> n = 133 \<or> n = 160)"

definition strip :: "string \<Rightarrow> string" where
  "strip s = rev (dropWhile isspace (rev (dropWhile isspace s)))"

section \<open>Startup records\<close>

text \<open>
  The dictionary built in \<open>search_yc_ai_startups\<close> and in the mock data of \<open>run\<close>:
  the four keys \<open>name\<close>, \<open>description\<close>, \<open>url\<close>, \<open>found_date\<close>, each holding text.
  Since every record has all four keys, \<open>startup.get("found_date", d)\<close> and
  \<open>startup.get("url", d)\<close> are the fields themselves.
\<close>

record startup =
  name :: string
  description :: string
  url :: string
  found_date :: string

section \<open>The qualifier of \<open>search_yc_ai_startups\<close>\<close>

text \<open>
  The condition of the \<open>if\<close> that guards \<open>startups.append\<close>:
  \<^verbatim>\<open>("AI" in d or "artificial intelligence" in d.lower()) and
     ("Y Combinator" in d or "YC" in d)\<close>
\<close>

definition qualifies :: "string \<Rightarrow> bool" where
  "qualifies company_description =
     ((str_in ''AI'' company_description
        \<or> str_in ''artificial intelligence'' (lower company_description))
      \<and> (str_in ''Y Combinator'' company_description
        \<or> str_in ''YC'' company_description))"

text \<open>
  A result card as the browser session shows it: the text of the name span and of the
  summary paragraph, and the \<open>href\<close> of the profile link. \<open>None\<close> stands for
  \<open>find_element\<close> raising because the element is not there.
\<close>

record card =
  name_span :: "string option"
  summary :: "string option"
  link_href :: "string option"

text \<open>
  One iteration of the loop over \<open>company_cards\<close>. An exception raised while reading
  the name or the summary is caught by the inner \<open>except\<close>, which skips the card; one
  raised while reading the link is caught by the innermost \<open>except\<close>, which sets the
  url to the empty string.
\<close>

definition scan_card :: "string \<Rightarrow> card \<Rightarrow> startup list \<Rightarrow> startup list" where
  "scan_card today c startups =
     (case name_span c of
        None \<Rightarrow> startups
      | Some n \<Rightarrow>
          (case summary c of
             None \<Rightarrow> startups
           | Some d \<Rightarrow>
               (let company_name = strip n;
                    company_description = strip d
                in if qualifies company_description
                   then let company_url = (case link_href c of Some h \<Rightarrow> h | None \<Rightarrow> '''')
                        in startups @ [\<lparr>name = company_name,
                                        description = company_description,
                                        url = company_url,
                                        found_date = today\<rparr>]
                   else startups)))"

fun scan_cards :: "string \<Rightarrow> card list \<Rightarrow> startup list \<Rightarrow> startup list" where
  "scan_cards today [] startups = startups"
| "scan_cards today (c # cs) startups = scan_cards today cs (scan_card today c startups)"

text \<open>
  \<open>search_yc_ai_startups\<close>: \<open>company_cards\<close> is \<open>None\<close> when loading the search page
  or finding the cards raises; the outer \<open>except\<close> then returns the list collected so
  far, which is still empty.
\<close>

definition search_yc_ai_startups :: "string \<Rightarrow> card list option \<Rightarrow> startup list" where
  "search_yc_ai_startups today company_cards =
     (case company_cards of
        None \<Rightarrow> []
      | Some cs \<Rightarrow> scan_cards today cs [])"

section \<open>The merge of \<open>save_startups_data\<close>\<close>

text \<open>
  The loop over the incoming \<open>startups\<close>, with its two accumulators
  \<open>existing_startups\<close> and \<open>existing_names\<close>.
\<close>

fun merge_loop :: "startup list \<Rightarrow> startup list \<Rightarrow> string list \<Rightarrow> startup list" where
  "merge_loop [] existing_startups existing_names = existing_startups"
| "merge_loop (s # startups) existing_startups existing_names =
     (if name s \<notin> set existing_names
      then merge_loop startups (existing_startups @ [s]) (existing_names @ [name s])
      else merge_loop startups existing_startups existing_names)"

definition merge :: "startup list \<Rightarrow> startup list \<Rightarrow> startup list" where
  "merge existing_startups startups =
     merge_loop startups existing_startups (map name existing_startups)"

section \<open>JSON text: \<open>json.dump\<close> and \<open>json.load\<close>\<close>

text \<open>
  \<open>save_startups_data\<close> writes the collection with \<open>json.dump(obj, f, indent=2)\<close>
  and reads it with \<open>json.load(f)\<close>. Both are the standard library's; they are
  modelled here as far as the program uses them: the encoder on a list of dicts whose
  values are strings, with the defaults \<open>ensure_ascii=True\<close> and the separators
  \<open>,\<close> and \<open>: \<close> that go with an indent; the decoder on any text, with the two
  limits of the interpreter that make it raise something else than
  \<open>JSONDecodeError\<close>: the recursion limit and the limit on the digits of an integer.
\<close>

definition dquote :: char where "dquote = CHR 0x22"
definition backslash :: char where "backslash = CHR 0x5C"
definition newline :: char where "newline = CHR 0x0A"

text \<open>
  \<open>encode_basestring_ascii\<close>: the string between double quotes, in which the
  backslash, the double quote and every character outside the range from space to
  \<open>~\<close> are replaced, by a short escape where there is one and by \<open>\uXXXX\<close> with
  four lower-case hexadecimal digits otherwise.
\<close>

definition hexdigit :: "nat \<Rightarrow> char" where
  "hexdigit k = ''0123456789abcdef'' ! (k mod 16)"

definition u_escape :: "nat \<Rightarrow> string" where
  "u_escape n =
     [backslash, CHR ''u'', hexdigit (n div 4096), hexdigit (n div 256),
      hexdigit (n div 16), hexdigit n]"

definition replace :: "char \<Rightarrow> string" where
  "replace c =
     (if c = backslash then [backslash, backslash]
      else if c = dquote then [backslash, dquote]
      else if c = CHR 0x08 then [backslash, CHR ''b'']
      else if c = CHR 0x0C then [backslash, CHR ''f'']
      else if c = CHR 0x0A then [backslash, CHR ''n'']
      else if c = CHR 0x0D then [backslash, CHR ''r'']
      else if c = CHR 0x09 then [backslash, CHR ''t'']
      else u_escape (of_char c))"

definition escape_ascii :: "char \<Rightarrow> bool" where
  "escape_ascii c =
     (c = backslash \<or> c = dquote \<or> \<not> (32 \<le> (of_char c :: nat) \<and> (of_char c :: nat) \<le> 126))"

text \<open>\<open>ESCAPE_ASCII.sub(replace, s)\<close>: every character that matches is replaced.\<close>

definition sub_escape_ascii :: "string \<Rightarrow> string" where
  "sub_escape_ascii s = concat (map (\<lambda>c. if escape_ascii c then replace c else [c]) s)"

definition encode_basestring_ascii :: "string \<Rightarrow> string" where
  "encode_basestring_ascii s = dquote # sub_escape_ascii s @ [dquote]"

text \<open>
  The list and the dicts with \<open>indent=2\<close>: every item on a line of its own, indented
  by two spaces for each level, items separated by a comma at the end of the line; the
  empty list is \<open>[]\<close>.
\<close>

definition newline_indent :: "nat \<Rightarrow> string" where
  "newline_indent level = newline # replicate (2 * level) CHR '' ''"

fun join_items :: "string \<Rightarrow> string list \<Rightarrow> string" where
  "join_items sep [] = []"
| "join_items sep [x] = x"
| "join_items sep (x # y # ys) = x @ sep @ join_items sep (y # ys)"

text \<open>One item of a dict: the key, the key separator and the value.\<close>

definition dict_item :: "string \<Rightarrow> string \<Rightarrow> string" where
  "dict_item k v = encode_basestring_ascii k @ '': '' @ encode_basestring_ascii v"

definition iterencode_dict :: "nat \<Rightarrow> startup \<Rightarrow> string" where
  "iterencode_dict level s =
     ''{'' @ newline_indent (level + 1)
     @ join_items ('','' @ newline_indent (level + 1))
         (map (\<lambda>(k, v). dict_item k v)
            [(''name'', name s), (''description'', description s),
             (''url'', url s), (''found_date'', found_date s)])
     @ newline_indent level @ ''}''"

definition iterencode_list :: "nat \<Rightarrow> startup list \<Rightarrow> string" where
  "iterencode_list level lst =
     (if lst = [] then ''[]''
      else ''['' @ newline_indent (level + 1)
           @ join_items ('','' @ newline_indent (level + 1)) (map (iterencode_dict (level + 1)) lst)
           @ newline_indent level @ '']'')"

definition json_dump :: "startup list \<Rightarrow> string" where
  "json_dump obj = iterencode_list 0 obj"

text \<open>
  What \<open>json.load\<close> builds. A number keeps its lexeme (Python turns it into an
  \<open>int\<close> or a \<open>float\<close>; the constants \<open>NaN\<close>, \<open>Infinity\<close> and \<open>-Infinity\<close>,
  which the decoder accepts, are numbers too). A string is the list of its code units:
  a character of the text gives its code point, an escape \<open>\uXXXX\<close> gives \<open>XXXX\<close>
  (Python joins the two escapes of a surrogate pair into one character; joined or not,
  such a string has a unit above 255 and is no text of this model). An object keeps its
  members in the order of the text (a Python dict keeps one value for a repeated key;
  the records below have no repeated key).
\<close>

datatype json =
    JNull
  | JBool bool
  | JNumber string
  | JString "nat list"
  | JArray "json list"
  | JObject "(nat list \<times> json) list"

text \<open>
  The exceptions that loading the store can raise. \<open>json.load\<close> raises
  \<open>JSONDecodeError\<close> on text that is not of the grammar, \<open>RecursionError\<close> on
  arrays and objects nested deeper than the interpreter allows, \<open>ValueError\<close> on an
  integer with more digits than the interpreter converts, and \<open>UnicodeDecodeError\<close>
  when the bytes of the file are no text in the encoding the file is opened with.
  \<open>TypeError\<close> and \<open>KeyError\<close> come from the first use of the loaded value.
\<close>

datatype exn =
    JSONDecodeError
  | RecursionError
  | ValueError
  | UnicodeDecodeError
  | TypeError
  | KeyError

text \<open>
  The two limits of the interpreter. The scanner enters one more level of recursion
  for every array and object that it opens; a store as the program writes it has two
  levels, an array of objects, and \<open>recursion_room\<close> is what the recursion limit
  (1000 frames by default) leaves to the scanner beyond those two.
  \<open>int_max_str_digits\<close> is \<open>sys.get_int_max_str_digits()\<close>, 4300 by default;
  0 is no limit, and an interpreter takes no other limit below 640.
\<close>

record interpreter =
  recursion_room :: nat
  int_max_str_digits :: nat

definition depth_limit :: "interpreter \<Rightarrow> nat" where
  "depth_limit py = recursion_room py + 2"

text \<open>
  The result of a scanning function: the value with the text that follows it, or the
  exception raised. The scanner is recursive; the model bounds the number of its steps
  by a fuel and says so when it runs out.
\<close>

datatype 'a scanned = Scanned 'a string | Raise exn | OutOfFuel

definition whitespace :: "char \<Rightarrow> bool" where
  "whitespace c = (c = CHR '' '' \<or> c = CHR 0x09 \<or> c = CHR 0x0A \<or> c = CHR 0x0D)"

definition skip_ws :: "string \<Rightarrow> string" where
  "skip_ws s = dropWhile whitespace s"

definition isdigit :: "char \<Rightarrow> bool" where
  "isdigit c = (48 \<le> (of_char c :: nat) \<and> (of_char c :: nat) \<le> 57)"

definition hexval :: "char \<Rightarrow> nat option" where
  "hexval c =
     (let n = (of_char c :: nat)
      in if 48 \<le> n \<and> n \<le> 57 then Some (n - 48)
         else if 97 \<le> n \<and> n \<le> 102 then Some (n - 87)
         else if 65 \<le> n \<and> n \<le> 70 then Some (n - 55)
         else None)"

definition hex4 :: "char \<Rightarrow> char \<Rightarrow> char \<Rightarrow> char \<Rightarrow> nat option" where
  "hex4 a b c d =
     (case (hexval a, hexval b, hexval c, hexval d) of
        (Some x, Some y, Some z, Some w) \<Rightarrow> Some (((x * 16 + y) * 16 + z) * 16 + w)
      | _ \<Rightarrow> None)"

definition backslash_char :: "char \<Rightarrow> char option" where
  "backslash_char e =
     (if e = dquote then Some dquote
      else if e = backslash then Some backslash
      else if e = CHR ''/'' then Some CHR ''/''
      else if e = CHR ''b'' then Some (CHR 0x08)
      else if e = CHR ''f'' then Some (CHR 0x0C)
      else if e = CHR ''n'' then Some (CHR 0x0A)
      else if e = CHR ''r'' then Some (CHR 0x0D)
      else if e = CHR ''t'' then Some (CHR 0x09)
      else None)"

definition chunk :: "nat \<Rightarrow> (nat list) scanned \<Rightarrow> (nat list) scanned" where
  "chunk n r = (case r of Scanned u rest \<Rightarrow> Scanned (n # u) rest | e \<Rightarrow> e)"

text \<open>
  \<open>scanstring\<close> in strict mode, called on the text after the opening quote: it ends at
  the closing quote; the end of the text, a control character, an unknown escape and a
  \<open>\u\<close> without four hexadecimal digits raise.
\<close>

fun scanstring :: "string \<Rightarrow> (nat list) scanned" where
  "scanstring [] = Raise JSONDecodeError"
| "scanstring (c # s) =
     (if c = dquote then Scanned [] s
      else if c = backslash then
        (case s of
           [] \<Rightarrow> Raise JSONDecodeError
         | e # s' \<Rightarrow>
             if e = CHR ''u'' then
               (case s' of
                  a # b # c # d # s'' \<Rightarrow>
                    (case hex4 a b c d of
                       None \<Rightarrow> Raise JSONDecodeError
                     | Some n \<Rightarrow> chunk n (scanstring s''))
                | _ \<Rightarrow> Raise JSONDecodeError)
             else
               (case backslash_char e of
                  None \<Rightarrow> Raise JSONDecodeError
                | Some ch \<Rightarrow> chunk (of_char ch) (scanstring s')))
      else if (of_char c :: nat) < 32 then Raise JSONDecodeError
      else chunk (of_char c) (scanstring s))"

text \<open>
  The number pattern \<open>-?(0|[1-9][0-9]*)(\.[0-9]+)?([eE][-+]?[0-9]+)?\<close>, matched at
  the start of the text: the longest match, with the text after it.
\<close>

definition exponent :: "string \<Rightarrow> string \<Rightarrow> string \<times> string" where
  "exponent lexeme s =
     (case s of
        [] \<Rightarrow> (lexeme, s)
      | e # t \<Rightarrow>
          if e = CHR ''e'' \<or> e = CHR ''E'' then
            (let (sign, t') = (case t of
                                 [] \<Rightarrow> ([], t)
                               | g # t'' \<Rightarrow> if g = CHR ''-'' \<or> g = CHR ''+'' then ([g], t'')
                                            else ([], t))
             in if takeWhile isdigit t' = [] then (lexeme, s)
                else (lexeme @ e # sign @ takeWhile isdigit t', dropWhile isdigit t'))
          else (lexeme, s))"

definition fraction :: "string \<Rightarrow> string \<Rightarrow> string \<times> string" where
  "fraction lexeme s =
     (case s of
        [] \<Rightarrow> exponent lexeme s
      | p # t \<Rightarrow>
          if p = CHR ''.'' \<and> takeWhile isdigit t \<noteq> []
          then exponent (lexeme @ p # takeWhile isdigit t) (dropWhile isdigit t)
          else exponent lexeme s)"

definition match_number :: "string \<Rightarrow> (string \<times> string) option" where
  "match_number s =
     (let (sign, s1) = (case s of
                          [] \<Rightarrow> ([], s)
                        | g # t \<Rightarrow> if g = CHR ''-'' then ([g], t) else ([], s))
      in case s1 of
           [] \<Rightarrow> None
         | c # t \<Rightarrow>
             if c = CHR ''0'' then Some (fraction (sign @ [c]) t)
             else if isdigit c
             then Some (fraction (sign @ c # takeWhile isdigit t) (dropWhile isdigit t))
             else None)"

text \<open>
  A number with a fraction or an exponent becomes a \<open>float\<close>, any other an \<open>int\<close>.
  The conversion to \<open>int\<close> raises \<open>ValueError\<close> when the number has more digits
  than the limit allows.
\<close>

definition is_float :: "string \<Rightarrow> bool" where
  "is_float lexeme = list_ex (\<lambda>c. c = CHR ''.'' \<or> c = CHR ''e'' \<or> c = CHR ''E'') lexeme"

definition int_too_long :: "interpreter \<Rightarrow> string \<Rightarrow> bool" where
  "int_too_long py lexeme =
     (\<not> is_float lexeme \<and> 0 < int_max_str_digits py
      \<and> int_max_str_digits py < length (filter isdigit lexeme))"

text \<open>
  \<open>scan_once\<close> reads one value at the start of the text; \<open>parse_array\<close> and
  \<open>parse_object\<close> read the elements of a non-empty array and the members of a
  non-empty object, up to the closing bracket. \<open>depth\<close> is the number of arrays and
  objects that may still be opened inside one another: opening one when it is 0 raises
  \<open>RecursionError\<close>.
\<close>

fun scan_once :: "nat \<Rightarrow> interpreter \<Rightarrow> nat \<Rightarrow> string \<Rightarrow> json scanned"
  and parse_array :: "nat \<Rightarrow> interpreter \<Rightarrow> nat \<Rightarrow> string \<Rightarrow> (json list) scanned"
  and parse_object ::
    "nat \<Rightarrow> interpreter \<Rightarrow> nat \<Rightarrow> string \<Rightarrow> ((nat list \<times> json) list) scanned"
where
  "scan_once 0 py depth s = OutOfFuel"
| "scan_once (Suc fuel) py depth s =
     (case s of
        [] \<Rightarrow> Raise JSONDecodeError
      | c # t \<Rightarrow>
          if c = dquote then
            (case scanstring t of
               Scanned u rest \<Rightarrow> Scanned (JString u) rest
             | Raise e \<Rightarrow> Raise e
             | OutOfFuel \<Rightarrow> OutOfFuel)
          else if c = CHR ''{'' then
            (case depth of
               0 \<Rightarrow> Raise RecursionError
             | Suc inner \<Rightarrow>
                 (case skip_ws t of
                    [] \<Rightarrow> Raise JSONDecodeError
                  | k # t' \<Rightarrow>
                      if k = CHR ''}'' then Scanned (JObject []) t'
                      else (case parse_object fuel py inner (k # t') of
                              Scanned pairs rest \<Rightarrow> Scanned (JObject pairs) rest
                            | Raise e \<Rightarrow> Raise e
                            | OutOfFuel \<Rightarrow> OutOfFuel)))
          else if c = CHR ''['' then
            (case depth of
               0 \<Rightarrow> Raise RecursionError
             | Suc inner \<Rightarrow>
                 (case skip_ws t of
                    [] \<Rightarrow> Raise JSONDecodeError
                  | k # t' \<Rightarrow>
                      if k = CHR '']'' then Scanned (JArray []) t'
                      else (case parse_array fuel py inner (k # t') of
                              Scanned vals rest \<Rightarrow> Scanned (JArray vals) rest
                            | Raise e \<Rightarrow> Raise e
                            | OutOfFuel \<Rightarrow> OutOfFuel)))
          else if c = CHR ''n'' \<and> startswith ''ull'' t then Scanned JNull (drop 3 t)
          else if c = CHR ''t'' \<and> startswith ''rue'' t then Scanned (JBool True) (drop 3 t)
          else if c = CHR ''f'' \<and> startswith ''alse'' t then Scanned (JBool False) (drop 4 t)
          else if c = CHR ''N'' \<and> startswith ''aN'' t then Scanned (JNumber ''NaN'') (drop 2 t)
          else if c = CHR ''I'' \<and> startswith ''nfinity'' t
          then Scanned (JNumber ''Infinity'') (drop 7 t)
          else if c = CHR ''-'' \<and> startswith ''Infinity'' t
          then Scanned (JNumber ''-Infinity'') (drop 8 t)
          else (case match_number s of
                  None \<Rightarrow> Raise JSONDecodeError
                | Some (lexeme, rest) \<Rightarrow>
                    if int_too_long py lexeme then Raise ValueError
                    else Scanned (JNumber lexeme) rest))"
| "parse_array 0 py depth s = OutOfFuel"
| "parse_array (Suc fuel) py depth s =
     (case scan_once fuel py depth s of
        Scanned val rest \<Rightarrow>
          (case skip_ws rest of
             [] \<Rightarrow> Raise JSONDecodeError
           | k # t \<Rightarrow>
               if k = CHR '']'' then Scanned [val] t
               else if k = CHR '','' then
                 (case parse_array fuel py depth (skip_ws t) of
                    Scanned vals rest' \<Rightarrow> Scanned (val # vals) rest'
                  | Raise e \<Rightarrow> Raise e
                  | OutOfFuel \<Rightarrow> OutOfFuel)
               else Raise JSONDecodeError)
      | Raise e \<Rightarrow> Raise e
      | OutOfFuel \<Rightarrow> OutOfFuel)"
| "parse_object 0 py depth s = OutOfFuel"
| "parse_object (Suc fuel) py depth s =
     (case s of
        [] \<Rightarrow> Raise JSONDecodeError
      | q # t \<Rightarrow>
          if q \<noteq> dquote then Raise JSONDecodeError
          else
            (case scanstring t of
               Scanned key rest \<Rightarrow>
                 (case skip_ws rest of
                    [] \<Rightarrow> Raise JSONDecodeError
                  | k # t' \<Rightarrow>
                      if k \<noteq> CHR '':'' then Raise JSONDecodeError
                      else
                        (case scan_once fuel py depth (skip_ws t') of
                           Scanned val rest' \<Rightarrow>
                             (case skip_ws rest' of
                                [] \<Rightarrow> Raise JSONDecodeError
                              | k' # t'' \<Rightarrow>
                                  if k' = CHR ''}'' then Scanned [(key, val)] t''
                                  else if k' = CHR '','' then
                                    (case parse_object fuel py depth (skip_ws t'') of
                                       Scanned pairs rest'' \<Rightarrow>
                                         Scanned ((key, val) # pairs) rest''
                                     | Raise e \<Rightarrow> Raise e
                                     | OutOfFuel \<Rightarrow> OutOfFuel)
                                  else Raise JSONDecodeError)
                         | Raise e \<Rightarrow> Raise e
                         | OutOfFuel \<Rightarrow> OutOfFuel))
             | Raise e \<Rightarrow> Raise e
             | OutOfFuel \<Rightarrow> OutOfFuel))"

text \<open>
  \<open>JSONDecoder.decode\<close>: leading whitespace, one value, trailing whitespace, and
  nothing after it. The fuel given is enough for every text: \<open>decode\<close> never
  gives \<open>OutOfFuel\<close>, as proved below.
\<close>

definition decode :: "interpreter \<Rightarrow> string \<Rightarrow> json scanned" where
  "decode py s =
     (case scan_once (2 * length s + 2) py (depth_limit py) (skip_ws s) of
        Scanned obj rest \<Rightarrow> if skip_ws rest = [] then Scanned obj [] else Raise JSONDecodeError
      | Raise e \<Rightarrow> Raise e
      | OutOfFuel \<Rightarrow> OutOfFuel)"

text \<open>
  The text is syntactically valid JSON, as the decoder takes the grammar: it is read
  when neither limit stops the decoder (no text nests deeper than it is long).
\<close>

definition syntactically_valid :: "string \<Rightarrow> bool" where
  "syntactically_valid s =
     (case decode \<lparr>recursion_room = length s, int_max_str_digits = 0\<rparr> s of
        Scanned obj rest \<Rightarrow> True
      | Raise e \<Rightarrow> False
      | OutOfFuel \<Rightarrow> False)"

text \<open>
  A result that did not run out of fuel and, when it is a value, left less text than
  there was: the measure by which the fuel is shown to be enough.
\<close>

definition consumes :: "'a scanned \<Rightarrow> string \<Rightarrow> bool" where
  "consumes res s =
     (case res of
        Scanned v rest \<Rightarrow> length rest < length s
      | Raise e \<Rightarrow> True
      | OutOfFuel \<Rightarrow> False)"

text \<open>
  The view of a loaded value as a collection of startup records: an array of objects
  that hold the four keys, in the order in which they are written, each with a string
  whose code units are below 256. \<open>startup_value\<close> is the value that holds a record.
\<close>

definition codes :: "string \<Rightarrow> nat list" where
  "codes s = map of_char s"

definition as_text :: "nat list \<Rightarrow> string option" where
  "as_text u = (if list_all (\<lambda>n. n < 256) u then Some (map char_of u) else None)"

definition startup_value :: "startup \<Rightarrow> json" where
  "startup_value s =
     JObject [(codes ''name'', JString (codes (name s))),
              (codes ''description'', JString (codes (description s))),
              (codes ''url'', JString (codes (url s))),
              (codes ''found_date'', JString (codes (found_date s)))]"

fun as_startup :: "json \<Rightarrow> startup option" where
  "as_startup (JObject [(k1, JString v1), (k2, JString v2), (k3, JString v3), (k4, JString v4)]) =
     (if k1 = codes ''name'' \<and> k2 = codes ''description''
         \<and> k3 = codes ''url'' \<and> k4 = codes ''found_date''
      then (case (as_text v1, as_text v2, as_text v3, as_text v4) of
              (Some n, Some d, Some u, Some f) \<Rightarrow>
                Some \<lparr>name = n, description = d, url = u, found_date = f\<rparr>
            | _ \<Rightarrow> None)
      else None)"
| "as_startup _ = None"

fun as_startups :: "json \<Rightarrow> startup list option" where
  "as_startups (JArray vals) = those (map as_startup vals)"
| "as_startups _ = None"

section \<open>Files and list objects\<close>

text \<open>
  What a file holds, as \<open>open(path, 'r')\<close> and \<open>read()\<close> give it: the text, or
  no text at all when the bytes cannot be decoded (\<open>read\<close> then raises
  \<open>UnicodeDecodeError\<close>).
\<close>

datatype file_content = Text string | Undecodable

text \<open>
  The state the program works on: the content of \<open>data/startups.json\<close> and the text
  of \<open>README.md\<close> (\<open>None\<close> when the file does not exist), and the Python list
  objects, each at its address. A list that is passed or returned is passed as its
  address, so that a change made in place is seen by every holder of the list. The
  directory \<open>data\<close> exists: the constructor creates it before \<open>run\<close> is called.
\<close>

record world =
  data_file :: "file_content option"
  results_file :: "string option"
  heap :: "nat \<Rightarrow> startup list"
  next_addr :: nat

text \<open>
  How a call ends when it does not return: with an exception, or beyond this model. The
  records of the model have the four keys in the order in which the program writes
  them, with text below code point 256. A store that loads and whose dicts all have a
  name, but which is not a list of such records (keys in another order, a key missing
  or added, a value that is not such text; also the empty object and the empty string),
  is \<open>Beyond\<close>: the model does not say what the program does with it.
\<close>

datatype stop = Raises exn | Beyond

text \<open>\<open>json.load(f)\<close>: read the file, decode the text.\<close>

definition json_load :: "interpreter \<Rightarrow> file_content \<Rightarrow> json scanned" where
  "json_load py content =
     (case content of
        Undecodable \<Rightarrow> Raise UnicodeDecodeError
      | Text s \<Rightarrow> decode py s)"

text \<open>
  \<open>[s["name"] for s in existing_startups]\<close> on the loaded value, as far as it raises.
  \<open>s["name"]\<close> raises \<open>KeyError\<close> on a dict without the key and \<open>TypeError\<close> on
  anything that is not a dict. Iterating over a list gives its elements; over a dict,
  its keys, which are strings; over a string, its characters, strings again; anything
  else is not iterable. The first element that raises ends the comprehension.
\<close>

fun subscript_name :: "json \<Rightarrow> exn option" where
  "subscript_name (JObject pairs) =
     (if codes ''name'' \<in> set (map fst pairs) then None else Some KeyError)"
| "subscript_name (JArray vals) = Some TypeError"
| "subscript_name (JString u) = Some TypeError"
| "subscript_name (JNumber lexeme) = Some TypeError"
| "subscript_name (JBool b) = Some TypeError"
| "subscript_name JNull = Some TypeError"

fun names_raise :: "json list \<Rightarrow> exn option" where
  "names_raise [] = None"
| "names_raise (s # rest) =
     (case subscript_name s of Some e \<Rightarrow> Some e | None \<Rightarrow> names_raise rest)"

fun existing_names_raise :: "json \<Rightarrow> exn option" where
  "existing_names_raise (JArray vals) = names_raise vals"
| "existing_names_raise (JObject pairs) = (if pairs = [] then None else Some TypeError)"
| "existing_names_raise (JString u) = (if u = [] then None else Some TypeError)"
| "existing_names_raise (JNumber lexeme) = Some TypeError"
| "existing_names_raise (JBool b) = Some TypeError"
| "existing_names_raise JNull = Some TypeError"

text \<open>
  The first part of \<open>save_startups_data\<close>, up to the list of the existing names:
  \<open>existing_startups\<close> is empty when the file does not exist and when
  \<open>json.load\<close> raises \<open>JSONDecodeError\<close>, the one exception that the \<open>except\<close>
  catches; any other exception leaves \<open>save_startups_data\<close>.
\<close>

definition load_existing :: "interpreter \<Rightarrow> world \<Rightarrow> stop + startup list" where
  "load_existing py w =
     (case data_file w of
        None \<Rightarrow> Inr []
      | Some content \<Rightarrow>
          (case json_load py content of
             Raise e \<Rightarrow> if e = JSONDecodeError then Inr [] else Inl (Raises e)
           | OutOfFuel \<Rightarrow> Inl Beyond
           | Scanned obj rest \<Rightarrow>
               (case existing_names_raise obj of
                  Some e \<Rightarrow> Inl (Raises e)
                | None \<Rightarrow>
                    (case as_startups obj of
                       Some existing_startups \<Rightarrow> Inr existing_startups
                     | None \<Rightarrow> Inl Beyond))))"

text \<open>
  \<open>save_startups_data\<close> returns the list object \<open>existing_startups\<close>, which holds the
  merged collection, after writing it to the data file.
\<close>

definition save_startups_data ::
    "interpreter \<Rightarrow> startup list \<Rightarrow> world \<Rightarrow> stop + (nat \<times> world)" where
  "save_startups_data py startups w =
     (case load_existing py w of
        Inl e \<Rightarrow> Inl e
      | Inr existing \<Rightarrow>
          (let existing_startups = next_addr w;
               merged = merge existing startups;
               w1 = w\<lparr>heap := (heap w)(existing_startups := merged),
                      next_addr := Suc existing_startups\<rparr>;
               w2 = w1\<lparr>data_file := Some (Text (json_dump merged))\<rparr>
           in Inr (existing_startups, w2)))"

section \<open>The report of \<open>update_readme\<close>\<close>

text \<open>
  \<open>lst.sort(key=key, reverse=True)\<close>: the sort is stable, and with \<open>reverse=True\<close>
  elements with equal keys still keep their order; the list is reversed, sorted
  ascending by a stable sort, and reversed again.
\<close>

definition list_sort_reverse :: "('a \<Rightarrow> 'k::linorder) \<Rightarrow> 'a list \<Rightarrow> 'a list" where
  "list_sort_reverse key lst = rev (sort_key key (rev lst))"

definition readme_head :: "string \<Rightarrow> string" where
  "readme_head today =
     ''# Y Combinator AI Startup Tracker\<newline>''
     @ ''\<newline>''
     @ ''Automatically updated list of AI startups backed by Y Combinator found on LinkedIn.\<newline>''
     @ ''\<newline>''
     @ ''Last updated: '' @ today @ ''\<newline>''
     @ ''\<newline>''
     @ ''## Latest AI Startups\<newline>''
     @ ''\<newline>''
     @ ''| Name | Description | Found Date | LinkedIn |\<newline>''
     @ ''|------|-------------|------------|----------|\<newline>''"

definition readme_foot :: string where
  "readme_foot =
     ''\<newline>''
     @ ''## How It Works\<newline>''
     @ ''\<newline>''
     @ ''This repository uses GitHub Actions to automatically:\<newline>''
     @ ''1. Search LinkedIn for AI startups backed by Y Combinator\<newline>''
     @ ''2. Update this README with the latest findings\<newline>''
     @ ''3. Run this process daily\<newline>''
     @ ''\<newline>''
     @ ''## Note\<newline>''
     @ ''\<newline>''
     @ ''This tool is for educational purposes only. Please respect LinkedIn'' @ [CHR 0x27]
     @ ''s terms of service and rate limits.\<newline>''"

definition short_desc :: "string \<Rightarrow> string" where
  "short_desc d = (if length d > 100 then take 100 d @ ''...'' else d)"

definition link :: "string \<Rightarrow> string" where
  "link u = (if u \<noteq> [] then ''[Profile]('' @ u @ '')'' else ''N/A'')"

text \<open>The line that one iteration of the loop over \<open>startups\<close> adds to the content.\<close>

definition table_row :: "startup \<Rightarrow> string" where
  "table_row s =
     ''| '' @ name s @ '' | '' @ short_desc (description s) @ '' | '' @ found_date s
     @ '' | '' @ link (url s) @ '' |\<newline>''"

definition readme_content :: "string \<Rightarrow> startup list \<Rightarrow> string" where
  "readme_content today startups =
     foldl (\<lambda>content s. content @ table_row s) (readme_head today) startups @ readme_foot"

text \<open>
  \<open>update_readme\<close> sorts the list object it is given, in place, then writes the
  content built from the sorted list to the results file.
\<close>

definition update_readme :: "string \<Rightarrow> nat \<Rightarrow> world \<Rightarrow> world" where
  "update_readme today startups w =
     (let sorted = list_sort_reverse found_date (heap w startups);
          w1 = w\<lparr>heap := (heap w)(startups := sorted)\<rparr>
      in w1\<lparr>results_file := Some (readme_content today sorted)\<rparr>)"

section \<open>The run\<close>

text \<open>
  What the browser session does in a run: whether the driver starts
  (\<open>webdriver.Chrome\<close> returns rather than raises), whether every step of the login
  goes through, and the cards that the search page shows (\<open>None\<close> when loading it
  raises).
\<close>

record session =
  driver_starts :: bool
  login_steps :: bool
  result_cards :: "card list option"

text \<open>\<open>login_to_linkedin\<close>: any exception in a step is caught and turned into \<open>False\<close>.\<close>

definition login_to_linkedin :: "session \<Rightarrow> bool" where
  "login_to_linkedin sess = (if login_steps sess then True else False)"

text \<open>\<open>not v\<close> for a value that is \<open>None\<close> or a string.\<close>

definition py_not :: "string option \<Rightarrow> bool" where
  "py_not v = (case v of None \<Rightarrow> True | Some s \<Rightarrow> s = [])"

definition mock_startups :: "string \<Rightarrow> startup list" where
  "mock_startups today =
     [\<lparr>name = ''AI Builder'',
       description = ''Y Combinator W2024 batch. We'' @ [CHR 0x27]
         @ ''re building AI-powered tools for software development.'',
       url = ''https://www.linkedin.com/company/aibuilder'',
       found_date = today\<rparr>,
      \<lparr>name = ''DataSense AI'',
       description = ''YC S2023 batch. Enterprise AI solutions for data analytics.'',
       url = ''https://www.linkedin.com/company/datasense-ai'',
       found_date = today\<rparr>]"

text \<open>
  \<open>run\<close>, with the date of the day as \<open>today\<close> (what
  \<open>datetime.datetime.now().strftime("%Y-%m-%d")\<close> gives, taken to be the same at
  every call within one run). Without credentials the mock data are saved and rendered,
  outside any \<open>try\<close>: an exception of \<open>save_startups_data\<close> leaves \<open>run\<close>. With
  credentials, a driver that does not start raises into the \<open>except Exception\<close> of
  \<open>run\<close>, which logs and returns; a failed login returns at once; and an exception of
  \<open>save_startups_data\<close>, raised before anything is written, is caught by the same
  \<open>except\<close>.
\<close>

definition run :: "interpreter \<Rightarrow> string \<Rightarrow> session \<Rightarrow> string option \<Rightarrow> string option
    \<Rightarrow> world \<Rightarrow> stop + world" where
  "run py today sess linkedin_username linkedin_password w =
     (if py_not linkedin_username \<or> py_not linkedin_password then
        (case save_startups_data py (mock_startups today) w of
           Inl e \<Rightarrow> Inl e
         | Inr (all_startups, w') \<Rightarrow> Inr (update_readme today all_startups w'))
      else if \<not> driver_starts sess then Inr w
      else if \<not> login_to_linkedin sess then Inr w
      else
        (let startups = search_yc_ai_startups today (result_cards sess)
         in case save_startups_data py startups w of
              Inl (Raises e) \<Rightarrow> Inr w
            | Inl Beyond \<Rightarrow> Inl Beyond
            | Inr (all_startups, w') \<Rightarrow> Inr (update_readme today all_startups w')))"

section \<open>Substring tests\<close>

lemma startswith_iff: "startswith sub s \<longleftrightarrow> (\<exists>t. s = sub @ t)"
  by (induction sub s rule: startswith.induct) auto

lemma str_in_iff: "str_in sub s \<longleftrightarrow> (\<exists>p t. s = p @ sub @ t)"
proof (induction s)
  case Nil
  show ?case by (simp add: startswith_iff)
next
  case (Cons c s)
  show ?case
  proof
    assume "str_in sub (c # s)"
    then consider "startswith sub (c # s)" | "str_in sub s" by auto
    then show "\<exists>p t. c # s = p @ sub @ t"
    proof cases
      case 1
      then obtain t where "c # s = sub @ t" by (auto simp: startswith_iff)
      then have "c # s = [] @ sub @ t" by simp
      then show ?thesis by blast
    next
      case 2
      with Cons obtain p t where "s = p @ sub @ t" by blast
      then have "c # s = (c # p) @ sub @ t" by simp
      then show ?thesis by blast
    qed
  next
    assume "\<exists>p t. c # s = p @ sub @ t"
    then obtain p t where pt: "c # s = p @ sub @ t" by blast
    show "str_in sub (c # s)"
    proof (cases p)
      case Nil
      with pt have "startswith sub (c # s)" by (auto simp: startswith_iff)
      then show ?thesis by simp
    next
      case (Cons a p')
      with pt have "s = p' @ sub @ t" by simp
      with Cons.IH have "str_in sub s" by blast
      then show ?thesis by simp
    qed
  qed
qed

lemma str_in_extend:
  assumes "str_in sub d"
  shows "str_in sub (p @ d @ s)"
proof -
  from assms obtain a b where "d = a @ sub @ b" by (auto simp: str_in_iff)
  then have "p @ d @ s = (p @ a) @ sub @ (b @ s)" by simp
  then show ?thesis unfolding str_in_iff by blast
qed

lemma lower_append: "lower (a @ b) = lower a @ lower b"
  by (simp add: lower_def)

section \<open>The qualifier\<close>

lemma scan_card_cases:
  "scan_card today c acc = acc \<or>
   (\<exists>x. scan_card today c acc = acc @ [x] \<and> qualifies (description x))"
  by (auto simp: scan_card_def Let_def split: option.splits)

lemma scan_cards_qualify:
  "\<forall>x \<in> set acc. qualifies (description x) \<Longrightarrow>
   \<forall>x \<in> set (scan_cards today cs acc). qualifies (description x)"
proof (induction cs arbitrary: acc)
  case Nil
  then show ?case by simp
next
  case (Cons c cs)
  from scan_card_cases [of today c acc] Cons.prems
  have "\<forall>x \<in> set (scan_card today c acc). qualifies (description x)" by auto
  then show ?case using Cons.IH by simp
qed

text \<open>
  C1. The qualifier accepts a description exactly when it contains \<open>AI\<close>, or its lower
  case contains \<open>artificial intelligence\<close>, and it contains \<open>Y Combinator\<close> or \<open>YC\<close>
  (containment being occurrence as a contiguous substring, case-sensitive); and every
  record that \<open>search_yc_ai_startups\<close> collects has a description the qualifier accepts.
\<close>

theorem qualifies_iff_and_gates_batch:
  "(qualifies d \<longleftrightarrow>
      ((\<exists>p s. d = p @ ''AI'' @ s) \<or> (\<exists>p s. lower d = p @ ''artificial intelligence'' @ s))
      \<and> ((\<exists>p s. d = p @ ''Y Combinator'' @ s) \<or> (\<exists>p s. d = p @ ''YC'' @ s)))
   \<and> (\<forall>x \<in> set (search_yc_ai_startups today company_cards). qualifies (description x))"
proof
  show "qualifies d \<longleftrightarrow>
      ((\<exists>p s. d = p @ ''AI'' @ s) \<or> (\<exists>p s. lower d = p @ ''artificial intelligence'' @ s))
      \<and> ((\<exists>p s. d = p @ ''Y Combinator'' @ s) \<or> (\<exists>p s. d = p @ ''YC'' @ s))"
    unfolding qualifies_def str_in_iff ..
  show "\<forall>x \<in> set (search_yc_ai_startups today company_cards). qualifies (description x)"
    using scan_cards_qualify [of "[]"]
    by (auto simp: search_yc_ai_startups_def split: option.splits)
qed

theorem qualifies_iff_and_gates_batch_witness:
  "\<lparr>name = ''DataSense AI'',
     description = ''YC S2023 batch. Enterprise AI solutions.'',
     url = '''', found_date = ''2024-05-01''\<rparr>
     \<in> set (search_yc_ai_startups ''2024-05-01''
           (Some [\<lparr>name_span = Some ''Plain Corp'',
                    summary = Some ''Enterprise solutions for data analytics.'',
                    link_href = Some ''https://www.linkedin.com/company/plain''\<rparr>,
                  \<lparr>name_span = Some '' DataSense AI '',
                    summary = Some ''YC S2023 batch. Enterprise AI solutions.'',
                    link_href = None\<rparr>]))
   \<and> qualifies ''YC S2023 batch. Enterprise AI solutions.''"
proof -
  let ?x = "\<lparr>name = ''DataSense AI'',
     description = ''YC S2023 batch. Enterprise AI solutions.'',
     url = '''', found_date = ''2024-05-01''\<rparr>"
  let ?cards = "Some [\<lparr>name_span = Some ''Plain Corp'',
                    summary = Some ''Enterprise solutions for data analytics.'',
                    link_href = Some ''https://www.linkedin.com/company/plain''\<rparr>,
                  \<lparr>name_span = Some '' DataSense AI '',
                    summary = Some ''YC S2023 batch. Enterprise AI solutions.'',
                    link_href = None\<rparr>]"
  have m: "?x \<in> set (search_yc_ai_startups ''2024-05-01'' ?cards)"
    by code_simp
  from qualifies_iff_and_gates_batch [of "[]" "''2024-05-01''" ?cards]
  have "\<forall>x \<in> set (search_yc_ai_startups ''2024-05-01'' ?cards). qualifies (description x)"
    by (rule conjunct2)
  from bspec [OF this m] m show ?thesis by simp
qed

text \<open>
  C10. The qualifier is monotone under textual extension: a description that qualifies
  still qualifies with any text put before and after it.
\<close>

theorem qualifies_extend:
  "qualifies d \<Longrightarrow> qualifies (p @ d @ s)"
  unfolding qualifies_def by (auto simp: lower_append intro: str_in_extend)

theorem qualifies_extend_witness:
  "qualifies ''YC S2023 batch. Enterprise AI solutions.''
   \<and> qualifies (''Hiring! '' @ ''YC S2023 batch. Enterprise AI solutions.'' @ '' Apply now'')"
proof -
  have q: "qualifies ''YC S2023 batch. Enterprise AI solutions.''"
    by code_simp
  from q qualifies_extend [OF q, of "''Hiring! ''" "'' Apply now''"] show ?thesis by simp
qed

section \<open>The merge\<close>

lemma merge_loop_eq:
  "merge_loop I E N =
     E @ map (nth I)
           (filter (\<lambda>i. name (I ! i) \<notin> set N \<and> name (I ! i) \<notin> name ` set (take i I))
              [0..<length I])"
proof (induction I arbitrary: E N)
  case Nil
  show ?case by simp
next
  case (Cons s I)
  have idx: "[0..<length (s # I)] = 0 # map Suc [0..<length I]"
    by (simp add: upt_conv_Cons map_Suc_upt del: upt_Suc)
  show ?case
  proof (cases "name s \<in> set N")
    case True
    have "\<And>i. (name (I ! i) \<notin> set N \<and> name (I ! i) \<noteq> name s
                 \<and> name (I ! i) \<notin> name ` set (take i I))
            = (name (I ! i) \<notin> set N \<and> name (I ! i) \<notin> name ` set (take i I))"
      using True by auto
    then show ?thesis using True
      by (simp only: idx merge_loop.simps Cons.IH) (simp add: filter_map comp_def)
  next
    case False
    then show ?thesis
      by (simp only: idx merge_loop.simps Cons.IH) (simp add: filter_map comp_def conj_ac)
  qed
qed

lemma merge_loop_known: "name ` set I \<subseteq> set N \<Longrightarrow> merge_loop I E N = E"
  by (induction I arbitrary: E N) auto

lemma names_merge_loop:
  "set N = name ` set E \<Longrightarrow>
   name ` set (merge_loop I E N) = name ` set E \<union> name ` set I"
  by (induction I arbitrary: E N) auto

text \<open>
  C2. The merged collection is the existing collection, unchanged and in its order,
  followed by the incoming records whose name occurs neither in the existing collection
  nor earlier in the incoming batch, in their incoming order; for a name that the
  existing collection already has, the records of that name in the result are exactly
  the existing ones (first write wins, no field is updated).
\<close>

theorem merge_keeps_existing_appends_new:
  "merge E I =
     E @ map (nth I)
           (filter (\<lambda>i. name (I ! i) \<notin> name ` set E
                        \<and> name (I ! i) \<notin> name ` set (take i I))
              [0..<length I])
   \<and> (\<forall>n \<in> name ` set E.
         filter (\<lambda>x. name x = n) (merge E I) = filter (\<lambda>x. name x = n) E)"
proof
  show eq: "merge E I =
     E @ map (nth I)
           (filter (\<lambda>i. name (I ! i) \<notin> name ` set E
                        \<and> name (I ! i) \<notin> name ` set (take i I))
              [0..<length I])"
    by (simp add: merge_def merge_loop_eq)
  show "\<forall>n \<in> name ` set E.
         filter (\<lambda>x. name x = n) (merge E I) = filter (\<lambda>x. name x = n) E"
  proof
    fix n assume n: "n \<in> name ` set E"
    have "filter (\<lambda>x. name x = n)
            (map (nth I)
               (filter (\<lambda>i. name (I ! i) \<notin> name ` set E
                            \<and> name (I ! i) \<notin> name ` set (take i I))
                  [0..<length I])) = []"
      using n by (auto simp: filter_empty_conv)
    then show "filter (\<lambda>x. name x = n) (merge E I) = filter (\<lambda>x. name x = n) E"
      by (simp add: eq)
  qed
qed

theorem merge_keeps_existing_appends_new_witness:
  "merge [\<lparr>name = ''X'', description = ''old'', url = ''u'', found_date = ''2024-01-01''\<rparr>]
         [\<lparr>name = ''X'', description = ''new'', url = ''v'', found_date = ''2024-02-02''\<rparr>,
          \<lparr>name = ''Y'', description = ''other'', url = '''', found_date = ''2024-02-02''\<rparr>]
     = [\<lparr>name = ''X'', description = ''old'', url = ''u'', found_date = ''2024-01-01''\<rparr>,
        \<lparr>name = ''Y'', description = ''other'', url = '''', found_date = ''2024-02-02''\<rparr>]
   \<and> ''X'' \<in> name ` set [\<lparr>name = ''X'', description = ''old'', url = ''u'',
                             found_date = ''2024-01-01''\<rparr>]
   \<and> filter (\<lambda>x. name x = ''X'')
        (merge [\<lparr>name = ''X'', description = ''old'', url = ''u'', found_date = ''2024-01-01''\<rparr>]
           [\<lparr>name = ''X'', description = ''new'', url = ''v'', found_date = ''2024-02-02''\<rparr>,
            \<lparr>name = ''Y'', description = ''other'', url = '''', found_date = ''2024-02-02''\<rparr>])
     = [\<lparr>name = ''X'', description = ''old'', url = ''u'', found_date = ''2024-01-01''\<rparr>]"
proof -
  let ?E = "[\<lparr>name = ''X'', description = ''old'', url = ''u'', found_date = ''2024-01-01''\<rparr>]"
  let ?I = "[\<lparr>name = ''X'', description = ''new'', url = ''v'', found_date = ''2024-02-02''\<rparr>,
          \<lparr>name = ''Y'', description = ''other'', url = '''', found_date = ''2024-02-02''\<rparr>]"
  have m: "''X'' \<in> name ` set ?E" by simp
  have v: "merge ?E ?I = ?E @ [\<lparr>name = ''Y'', description = ''other'', url = '''',
                                 found_date = ''2024-02-02''\<rparr>]"
    by (simp add: merge_def)
  from merge_keeps_existing_appends_new [of ?E ?I]
  have "\<forall>n \<in> name ` set ?E.
          filter (\<lambda>x. name x = n) (merge ?E ?I) = filter (\<lambda>x. name x = n) ?E"
    by (rule conjunct2)
  from bspec [OF this m] m v show ?thesis by simp
qed

text \<open>
  C3. The merge is idempotent in its incoming batch: merging the same batch a second
  time into the result of the first merge changes nothing.
\<close>

theorem merge_idempotent: "merge (merge A B) B = merge A B"
proof -
  have "name ` set B \<subseteq> set (map name (merge A B))"
    using names_merge_loop [of "map name A" A B] by (simp add: merge_def)
  then show ?thesis
    using merge_loop_known [of B "map name (merge A B)" "merge A B"]
    by (simp add: merge_def [of "merge A B" B])
qed

section \<open>The report\<close>

lemma foldl_rows:
  "foldl (\<lambda>content s. content @ table_row s) acc xs = acc @ concat (map table_row xs)"
  by (induction xs arbitrary: acc) simp_all

lemma readme_content_eq:
  "readme_content today xs = readme_head today @ concat (map table_row xs) @ readme_foot"
  by (simp add: readme_content_def foldl_rows)

lemma list_sort_reverse_sorted:
  "sorted_wrt (\<lambda>a b. key b \<le> key a) (list_sort_reverse key xs)"
proof -
  have "sorted (map key (sort_key key (rev xs)))" by (rule sorted_sort_key)
  then have "sorted_wrt (\<lambda>a b. key a \<le> key b) (sort_key key (rev xs))"
    by (simp add: sorted_map)
  then show ?thesis
    by (simp add: list_sort_reverse_def sorted_wrt_rev)
qed

lemma list_sort_reverse_stable:
  "filter (\<lambda>x. key x = k) (list_sort_reverse key xs) = filter (\<lambda>x. key x = k) xs"
proof -
  have "filter (\<lambda>x. key x = k) (list_sort_reverse key xs)
          = rev (filter (\<lambda>x. key x = k) (sort_key key (rev xs)))"
    by (simp add: list_sort_reverse_def rev_filter)
  also have "\<dots> = rev (filter (\<lambda>x. key x = k) (rev xs))"
    by (simp only: sort_key_stable)
  also have "\<dots> = filter (\<lambda>x. key x = k) xs"
    by (simp add: rev_filter)
  finally show ?thesis .
qed

lemma list_sort_reverse_mset: "mset (list_sort_reverse key xs) = mset xs"
  by (simp add: list_sort_reverse_def)

lemma set_list_sort_reverse: "set (list_sort_reverse key xs) = set xs"
  by (simp add: list_sort_reverse_def)

lemma update_readme_fields:
  "results_file (update_readme today r w)
     = Some (readme_content today (list_sort_reverse found_date (heap w r)))"
  "heap (update_readme today r w) = (heap w)(r := list_sort_reverse found_date (heap w r))"
  "data_file (update_readme today r w) = data_file w"
  "next_addr (update_readme today r w) = next_addr w"
  by (simp_all add: update_readme_def Let_def)

lemma row_in_content:
  assumes "s \<in> set xs"
  shows "\<exists>pre post. readme_content today xs = pre @ table_row s @ post"
proof -
  from assms obtain ys zs where "xs = ys @ s # zs" by (auto simp: in_set_conv_decomp)
  then have "readme_content today xs
      = (readme_head today @ concat (map table_row ys)) @ table_row s
        @ (concat (map table_row zs) @ readme_foot)"
    by (simp add: readme_content_eq)
  then show ?thesis by blast
qed

text \<open>
  C4, as the claim states it, fails: the renderer sorts the very list object it is
  given. With an older record before a newer one, the caller's list is in another order
  after rendering.
\<close>

theorem update_readme_reorders_callers_list:
  "heap (update_readme ''2024-03-01'' 0
          \<lparr>data_file = None, results_file = None,
           heap = (\<lambda>a. [])(0 :=
             [\<lparr>name = ''Old'', description = ''YC AI'', url = '''', found_date = ''2024-01-01''\<rparr>,
              \<lparr>name = ''New'', description = ''YC AI'', url = '''', found_date = ''2024-02-01''\<rparr>]),
           next_addr = 1\<rparr>) 0
   \<noteq> [\<lparr>name = ''Old'', description = ''YC AI'', url = '''', found_date = ''2024-01-01''\<rparr>,
       \<lparr>name = ''New'', description = ''YC AI'', url = '''', found_date = ''2024-02-01''\<rparr>]"
  by (simp add: update_readme_fields list_sort_reverse_def list_le_def list_less_def
        less_char_def less_eq_char_def)

text \<open>
  C4, amended. The renderer sorts the caller's list in place: after rendering, the
  caller's list holds the same records, stably sorted by found date, newest first. The
  renderer does not touch the data file, so the order that the merge persisted stays the
  persisted one.
\<close>

theorem update_readme_sorts_in_place:
  "heap (update_readme today r w) r = list_sort_reverse found_date (heap w r)
   \<and> mset (heap (update_readme today r w) r) = mset (heap w r)
   \<and> data_file (update_readme today r w) = data_file w"
  by (simp add: update_readme_fields list_sort_reverse_mset)

text \<open>
  C5. The table rows of the report are those of the records sorted by found date,
  newest first, between the fixed head and foot; the sort is stable: the records of any
  one found date are in the order they had in the list given; and no record is lost or
  added.
\<close>

theorem report_rows_sorted_stable:
  "results_file (update_readme today r w)
     = Some (readme_head today
             @ concat (map table_row (list_sort_reverse found_date (heap w r)))
             @ readme_foot)
   \<and> sorted_wrt (\<lambda>a b. found_date b \<le> found_date a)
        (list_sort_reverse found_date (heap w r))
   \<and> (\<forall>d. filter (\<lambda>s. found_date s = d) (list_sort_reverse found_date (heap w r))
           = filter (\<lambda>s. found_date s = d) (heap w r))
   \<and> mset (list_sort_reverse found_date (heap w r)) = mset (heap w r)"
  by (simp add: update_readme_fields readme_content_eq list_sort_reverse_sorted
        list_sort_reverse_stable list_sort_reverse_mset)

text \<open>
  C6. Every record of the list has its row in the report; the description in the row is
  the first 100 characters followed by three full stops when the description has more
  than 100 characters, and the description itself when it has 100 or fewer.
\<close>

theorem row_description_truncated:
  "(s \<in> set (heap w r) \<longrightarrow>
      (\<exists>pre post. results_file (update_readme today r w) = Some (pre @ table_row s @ post)))
   \<and> table_row s =
       ''| '' @ name s @ '' | '' @ short_desc (description s) @ '' | '' @ found_date s
       @ '' | '' @ link (url s) @ '' |\<newline>''
   \<and> (100 < length (description s) \<longrightarrow>
        short_desc (description s) = take 100 (description s) @ ''...'')
   \<and> (length (description s) \<le> 100 \<longrightarrow> short_desc (description s) = description s)"
  using row_in_content [of s "list_sort_reverse found_date (heap w r)" today]
  by (simp add: update_readme_fields set_list_sort_reverse table_row_def short_desc_def)

theorem row_description_truncated_witness:
  "\<lparr>name = ''Long'', description = replicate 101 CHR ''a'', url = '''',
     found_date = ''2024-01-01''\<rparr>
     \<in> set (heap \<lparr>data_file = None, results_file = None,
                  heap = (\<lambda>a. [])(0 :=
                    [\<lparr>name = ''Long'', description = replicate 101 CHR ''a'', url = '''',
                       found_date = ''2024-01-01''\<rparr>]),
                  next_addr = 1\<rparr> 0)
   \<and> (\<exists>pre post.
        results_file (update_readme ''2024-03-01'' 0
           \<lparr>data_file = None, results_file = None,
            heap = (\<lambda>a. [])(0 :=
              [\<lparr>name = ''Long'', description = replicate 101 CHR ''a'', url = '''',
                 found_date = ''2024-01-01''\<rparr>]),
            next_addr = 1\<rparr>)
        = Some (pre @ table_row \<lparr>name = ''Long'', description = replicate 101 CHR ''a'',
                                 url = '''', found_date = ''2024-01-01''\<rparr> @ post))
   \<and> 100 < length (replicate 101 CHR ''a'')
   \<and> short_desc (replicate 101 CHR ''a'') = replicate 100 CHR ''a'' @ ''...''
   \<and> length (replicate 100 CHR ''a'') \<le> 100
   \<and> short_desc (replicate 100 CHR ''a'') = replicate 100 CHR ''a''"
proof -
  let ?long = "\<lparr>name = ''Long'', description = replicate 101 CHR ''a'', url = '''',
     found_date = ''2024-01-01''\<rparr>"
  let ?short = "\<lparr>name = ''Short'', description = replicate 100 CHR ''a'', url = '''',
     found_date = ''2024-01-01''\<rparr>"
  let ?w = "\<lparr>data_file = None, results_file = None,
            heap = (\<lambda>a. [])(0 := [?long]), next_addr = 1\<rparr>"
  have m: "?long \<in> set (heap ?w 0)" by simp
  have l: "100 < length (description ?long)" by simp
  have s: "length (description ?short) \<le> 100" by simp
  have t: "take 100 (replicate 101 CHR ''a'') = replicate 100 CHR ''a''" by simp
  note long = row_description_truncated [of ?long ?w 0 "''2024-03-01''"]
  note short = row_description_truncated [of ?short ?w 0 "''2024-03-01''"]
  have a: "\<exists>pre post. results_file (update_readme ''2024-03-01'' 0 ?w)
              = Some (pre @ table_row ?long @ post)"
    by (rule long [THEN conjunct1, THEN mp, OF m])
  have "short_desc (description ?long) = take 100 (description ?long) @ ''...''"
    by (rule long [THEN conjunct2, THEN conjunct2, THEN conjunct1, THEN mp, OF l])
  then have b: "short_desc (replicate 101 CHR ''a'') = replicate 100 CHR ''a'' @ ''...''"
    by (simp only: startup.simps t)
  have "short_desc (description ?short) = description ?short"
    by (rule short [THEN conjunct2, THEN conjunct2, THEN conjunct2, THEN mp, OF s])
  then have c: "short_desc (replicate 100 CHR ''a'') = replicate 100 CHR ''a''"
    by (simp only: startup.simps)
  have l': "100 < length (replicate 101 CHR ''a'')" by simp
  have s': "length (replicate 100 CHR ''a'') \<le> 100" by simp
  from m a l' b s' c show ?thesis by (intro conjI)
qed

section \<open>The run\<close>

lemma save_startups_data_loaded:
  assumes "load_existing py w = Inr E"
  shows "save_startups_data py I w
     = Inr (next_addr w,
            w\<lparr>heap := (heap w)(next_addr w := merge E I),
               next_addr := Suc (next_addr w),
               data_file := Some (Text (json_dump (merge E I)))\<rparr>)"
  using assms by (simp add: save_startups_data_def Let_def)

lemma save_startups_data_stops:
  assumes "load_existing py w = Inl e"
  shows "save_startups_data py I w = Inl e"
  using assms by (simp add: save_startups_data_def)

text \<open>
  C9. With credentials given, when the driver does not start or the login fails, the run
  ends in the state it started from: neither the data file nor the results file is
  written, and no list is built.
\<close>

theorem failed_session_writes_nothing:
  "\<not> py_not linkedin_username \<Longrightarrow> \<not> py_not linkedin_password \<Longrightarrow>
   \<not> driver_starts sess \<or> \<not> login_to_linkedin sess \<Longrightarrow>
   run py today sess linkedin_username linkedin_password w = Inr w"
  by (auto simp: run_def)

theorem failed_session_writes_nothing_witness:
  "\<not> py_not (Some ''user'') \<and> \<not> py_not (Some ''secret'')
   \<and> \<not> login_to_linkedin \<lparr>driver_starts = True, login_steps = False, result_cards = None\<rparr>
   \<and> run \<lparr>recursion_room = 900, int_max_str_digits = 4300\<rparr> ''2024-03-01''
        \<lparr>driver_starts = True, login_steps = False, result_cards = None\<rparr>
        (Some ''user'') (Some ''secret'')
        \<lparr>data_file = Some (Text ''[]''), results_file = None, heap = (\<lambda>a. []),
         next_addr = 0\<rparr>
     = Inr \<lparr>data_file = Some (Text ''[]''), results_file = None, heap = (\<lambda>a. []),
            next_addr = 0\<rparr>"
proof -
  let ?sess = "\<lparr>driver_starts = True, login_steps = False, result_cards = None\<rparr>"
  have u: "\<not> py_not (Some ''user'')" by (simp add: py_not_def)
  have p: "\<not> py_not (Some ''secret'')" by (simp add: py_not_def)
  have l: "\<not> driver_starts ?sess \<or> \<not> login_to_linkedin ?sess"
    by (simp add: login_to_linkedin_def)
  from failed_session_writes_nothing [OF u p l] u p l show ?thesis by simp
qed

section \<open>The decoder always has fuel enough\<close>

lemma skip_ws_length: "length (skip_ws s) \<le> length s"
  by (simp add: skip_ws_def length_dropWhile_le)

lemma chunk_cases:
  "chunk n r \<noteq> OutOfFuel \<longleftrightarrow> r \<noteq> OutOfFuel"
  "chunk n r = Scanned u t \<longleftrightarrow> (\<exists>u'. r = Scanned u' t \<and> u = n # u')"
  by (auto simp: chunk_def split: scanned.splits)

lemma scanstring_length: "scanstring s = Scanned u r \<Longrightarrow> length r < length s"
proof (induction s arbitrary: u rule: length_induct)
  case (1 s)
  have ih: "\<And>t u'. scanstring t = Scanned u' r \<Longrightarrow> length t < length s \<Longrightarrow> length r < length t"
    using "1.IH" by blast
  show ?case
  proof (cases s)
    case Nil
    with "1.prems" show ?thesis by simp
  next
    case (Cons c t)
    with "1.prems" show ?thesis
      by (auto simp: chunk_cases Cons split: if_splits list.splits option.splits
            dest!: ih [unfolded Cons])
  qed
qed

lemma chunk_fuel: "chunk n r = OutOfFuel \<longleftrightarrow> r = OutOfFuel"
  by (auto simp: chunk_def split: scanned.splits)

lemma scanstring_fuel_aux: "scanstring s = OutOfFuel \<Longrightarrow> False"
proof (induction s rule: length_induct)
  case (1 s)
  have ih: "\<And>t. scanstring t = OutOfFuel \<Longrightarrow> length t < length s \<Longrightarrow> False"
    using "1.IH" by blast
  show ?case
  proof (cases s)
    case Nil
    with "1.prems" show ?thesis by simp
  next
    case (Cons c t)
    with "1.prems" show ?thesis
      by (auto simp: chunk_fuel Cons split: if_splits list.splits option.splits
            dest!: ih [unfolded Cons])
  qed
qed

lemma scanstring_fuel: "scanstring s \<noteq> OutOfFuel"
  using scanstring_fuel_aux by blast

lemma drop_le: "length r \<le> length (dropWhile P xs) \<Longrightarrow> length r \<le> length xs"
  by (meson le_trans length_dropWhile_le)

lemma exponent_length: "exponent lexeme s = (lx, r) \<Longrightarrow> length r \<le> length s"
  by (auto simp: exponent_def Let_def length_dropWhile_le le_SucI
        split: list.splits if_splits prod.splits)

lemma fraction_length: "fraction lexeme s = (lx, r) \<Longrightarrow> length r \<le> length s"
  by (auto simp: fraction_def le_SucI dest!: exponent_length drop_le
        split: list.splits if_splits)

lemma match_number_length: "match_number s = Some (lx, r) \<Longrightarrow> length r < length s"
  by (auto simp: match_number_def Let_def le_SucI less_Suc_eq_le
        dest!: fraction_length drop_le
        split: list.splits if_splits prod.splits)

lemma consumes_simps [simp]:
  "consumes (Scanned v r) s \<longleftrightarrow> length r < length s"
  "consumes (Raise e) s"
  "\<not> consumes OutOfFuel s"
  by (simp_all add: consumes_def)

lemma consumes_wrap:
  "consumes (case x of Scanned v r \<Rightarrow> Scanned (g v) r
                     | Raise e \<Rightarrow> Raise e
                     | OutOfFuel \<Rightarrow> OutOfFuel) s
   \<longleftrightarrow> consumes x s"
  by (cases x) simp_all

lemma consumes_mono: "consumes x t \<Longrightarrow> length t \<le> length s \<Longrightarrow> consumes x s"
  by (cases x) simp_all

lemma consumes_if:
  "consumes x s \<Longrightarrow> consumes y s \<Longrightarrow> consumes (if b then x else y) s"
  by simp

lemma consumes_scanstring: "consumes (scanstring t) t"
  using scanstring_fuel [of t] scanstring_length [of t]
  by (cases "scanstring t") simp_all

lemma skip_ws_Cons_length: "skip_ws t = k # t' \<Longrightarrow> length t' < length t"
  using skip_ws_length [of t] by simp

lemma scan_once_step:
  assumes arr: "\<And>d t. 2 * length t + 1 < f \<Longrightarrow> consumes (parse_array f py d t) t"
    and obj: "\<And>d t. 2 * length t < f \<Longrightarrow> consumes (parse_object f py d t) t"
    and fuel: "2 * length s < Suc f"
  shows "consumes (scan_once (Suc f) py d s) s"
proof (cases s)
  case Nil
  then show ?thesis by simp
next
  case (Cons c t)
  have str: "consumes (scanstring t) (c # t)"
    by (rule consumes_mono [OF consumes_scanstring]) simp
  have brace: "consumes (parse_object f py inner (k # t')) (c # t)" if "skip_ws t = k # t'" for k t' inner
  proof -
    from that have l: "length (k # t') \<le> length t"
      using skip_ws_length [of t] by simp
    with fuel Cons have "2 * length (k # t') < f" by simp
    from consumes_mono [OF obj [OF this]] l show ?thesis by simp
  qed
  have bracket: "consumes (parse_array f py inner (k # t')) (c # t)" if "skip_ws t = k # t'" for k t' inner
  proof -
    from that have l: "length (k # t') \<le> length t"
      using skip_ws_length [of t] by simp
    with fuel Cons have "2 * length (k # t') + 1 < f" by simp
    from consumes_mono [OF arr [OF this]] l show ?thesis by simp
  qed
  have num: "consumes (case match_number (c # t) of
                  None \<Rightarrow> Raise JSONDecodeError
                | Some (lexeme, rest) \<Rightarrow>
                    if int_too_long py lexeme then Raise ValueError
                    else Scanned (JNumber lexeme) rest) (c # t)"
    by (auto split: option.splits dest: match_number_length)
  have obj_case: "consumes (case d of
               0 \<Rightarrow> Raise RecursionError
             | Suc inner \<Rightarrow>
                 (case skip_ws t of
                    [] \<Rightarrow> Raise JSONDecodeError
                  | k # t' \<Rightarrow>
                      if k = CHR ''}'' then Scanned (JObject []) t'
                      else (case parse_object f py inner (k # t') of
                              Scanned pairs rest \<Rightarrow> Scanned (JObject pairs) rest
                            | Raise e \<Rightarrow> Raise e
                            | OutOfFuel \<Rightarrow> OutOfFuel))) (c # t)"
  proof (cases d)
    case 0
    then show ?thesis by simp
  next
    case (Suc inner)
    show ?thesis
    proof (cases "skip_ws t")
      case Nil
      then show ?thesis by (simp add: Suc)
    next
      case (Cons k t')
      from skip_ws_Cons_length [OF Cons] brace [OF Cons] show ?thesis
        by (simp add: Suc Cons consumes_wrap)
    qed
  qed
  have arr_case: "consumes (case d of
               0 \<Rightarrow> Raise RecursionError
             | Suc inner \<Rightarrow>
                 (case skip_ws t of
                    [] \<Rightarrow> Raise JSONDecodeError
                  | k # t' \<Rightarrow>
                      if k = CHR '']'' then Scanned (JArray []) t'
                      else (case parse_array f py inner (k # t') of
                              Scanned vals rest \<Rightarrow> Scanned (JArray vals) rest
                            | Raise e \<Rightarrow> Raise e
                            | OutOfFuel \<Rightarrow> OutOfFuel))) (c # t)"
  proof (cases d)
    case 0
    then show ?thesis by simp
  next
    case (Suc inner)
    show ?thesis
    proof (cases "skip_ws t")
      case Nil
      then show ?thesis by (simp add: Suc)
    next
      case (Cons k t')
      from skip_ws_Cons_length [OF Cons] bracket [OF Cons] show ?thesis
        by (simp add: Suc Cons consumes_wrap)
    qed
  qed
  have str_case: "consumes (case scanstring t of
               Scanned u rest \<Rightarrow> Scanned (JString u) rest
             | Raise e \<Rightarrow> Raise e
             | OutOfFuel \<Rightarrow> OutOfFuel) (c # t)"
    using str by (simp add: consumes_wrap)
  show ?thesis
    unfolding Cons scan_once.simps(2) list.case
    by (intro consumes_if str_case obj_case arr_case num) simp_all
qed

lemma parse_array_step:
  assumes scan: "\<And>d t. 2 * length t < f \<Longrightarrow> consumes (scan_once f py d t) t"
    and arr: "\<And>d t. 2 * length t + 1 < f \<Longrightarrow> consumes (parse_array f py d t) t"
    and fuel: "2 * length s + 1 < Suc f"
  shows "consumes (parse_array (Suc f) py d s) s"
proof (cases "scan_once f py d s")
  case (Scanned val rest)
  from fuel have "2 * length s < f" by simp
  from scan [where d = d, OF this] Scanned have rest: "length rest < length s" by simp
  show ?thesis
  proof (cases "skip_ws rest")
    case Nil
    with Scanned show ?thesis by simp
  next
    case (Cons k t)
    from skip_ws_Cons_length [OF Cons] rest have t: "length t < length s" "length t + 2 \<le> length s"
      by simp_all
    have "length (skip_ws t) \<le> length t" by (rule skip_ws_length)
    with t fuel have "2 * length (skip_ws t) + 1 < f" and l: "length (skip_ws t) \<le> length s"
      by simp_all
    from consumes_mono [OF arr [OF this(1)] l]
    have "consumes (case parse_array f py d (skip_ws t) of
                    Scanned vals rest' \<Rightarrow> Scanned (val # vals) rest'
                  | Raise e \<Rightarrow> Raise e
                  | OutOfFuel \<Rightarrow> OutOfFuel) s"
      by (simp add: consumes_wrap)
    with t show ?thesis
      by (subst parse_array.simps(2))
         (simp add: Scanned Cons del: parse_array.simps scan_once.simps)
  qed
next
  case (Raise e)
  then show ?thesis by simp
next
  case OutOfFuel
  from fuel have "2 * length s < f" by simp
  from scan [where d = d, OF this] OutOfFuel show ?thesis by simp
qed

lemma parse_object_step:
  assumes scan: "\<And>d t. 2 * length t < f \<Longrightarrow> consumes (scan_once f py d t) t"
    and obj: "\<And>d t. 2 * length t < f \<Longrightarrow> consumes (parse_object f py d t) t"
    and fuel: "2 * length s < Suc f"
  shows "consumes (parse_object (Suc f) py d s) s"
proof (cases s)
  case Nil
  then show ?thesis by simp
next
  case (Cons q t)
  show ?thesis
  proof (cases "scanstring t")
    case (Scanned key rest)
    from scanstring_length [OF Scanned] have rest: "length rest < length t" .
    show ?thesis
    proof (cases "skip_ws rest")
      case Nil
      with Scanned Cons show ?thesis by simp
    next
      case c1: (Cons k t')
      from skip_ws_Cons_length [OF c1] rest have t': "length t' + 2 \<le> length t" by simp
      have w: "length (skip_ws t') \<le> length t'" by (rule skip_ws_length)
      with t' fuel Cons have "2 * length (skip_ws t') < f" by simp
      note v = scan [where d = d, OF this]
      show ?thesis
      proof (cases "scan_once f py d (skip_ws t')")
        case s2: (Scanned val rest')
        from v s2 w have rest': "length rest' < length t'" by simp
        show ?thesis
        proof (cases "skip_ws rest'")
          case Nil
          with Scanned Cons c1 s2 show ?thesis by simp
        next
          case c2: (Cons k' t'')
          from skip_ws_Cons_length [OF c2] rest' t'
          have t'': "length t'' + 4 \<le> length t" by simp
          have "length (skip_ws t'') \<le> length t''" by (rule skip_ws_length)
          with t'' fuel Cons have "2 * length (skip_ws t'') < f"
            and l: "\<And>a. length (skip_ws t'') \<le> length (a # t)"
            by simp_all
          from consumes_mono [OF obj [OF this(1)] l]
          have "\<And>a. consumes (case parse_object f py d (skip_ws t'') of
                            Scanned pairs rest'' \<Rightarrow> Scanned ((key, val) # pairs) rest''
                          | Raise e \<Rightarrow> Raise e
                          | OutOfFuel \<Rightarrow> OutOfFuel) (a # t)"
            by (simp add: consumes_wrap)
          with t'' show ?thesis
            unfolding Cons
            by (subst parse_object.simps(2))
               (simp add: Scanned c1 s2 c2 del: parse_object.simps scan_once.simps)
        qed
      next
        case (Raise e)
        with Scanned Cons c1 show ?thesis by simp
      next
        case OutOfFuel
        with v show ?thesis by simp
      qed
    qed
  next
    case (Raise e)
    with Cons show ?thesis by simp
  next
    case OutOfFuel
    with scanstring_fuel show ?thesis by blast
  qed
qed

lemma fuel_enough:
  "(2 * length s < f \<longrightarrow> consumes (scan_once f py d s) s)
   \<and> (2 * length s + 1 < f \<longrightarrow> consumes (parse_array f py d s) s)
   \<and> (2 * length s < f \<longrightarrow> consumes (parse_object f py d s) s)"
proof (induction f arbitrary: s d)
  case 0
  show ?case by simp
next
  case (Suc f)
  have scan: "\<And>d t. 2 * length t < f \<Longrightarrow> consumes (scan_once f py d t) t"
    and arr: "\<And>d t. 2 * length t + 1 < f \<Longrightarrow> consumes (parse_array f py d t) t"
    and obj: "\<And>d t. 2 * length t < f \<Longrightarrow> consumes (parse_object f py d t) t"
    using Suc.IH by blast+
  show ?case
    using scan_once_step [OF arr obj] parse_array_step [OF scan arr]
      parse_object_step [OF scan obj]
    by blast
qed

lemma decode_fuel: "decode py s \<noteq> OutOfFuel"
proof -
  have "2 * length (skip_ws s) < 2 * length s + 2"
    using skip_ws_length [of s] by simp
  with fuel_enough [where s = "skip_ws s" and f = "2 * length s + 2" and py = py
      and d = "depth_limit py"]
  have "consumes (scan_once (2 * length s + 2) py (depth_limit py) (skip_ws s)) (skip_ws s)" by blast
  then show ?thesis
    by (cases "scan_once (2 * length s + 2) py (depth_limit py) (skip_ws s)") (simp_all add: decode_def)
qed

section \<open>Loading what was saved\<close>

lemma hexval_digit:
  assumes "j < 16"
  shows "hexval (''0123456789abcdef'' ! j) = Some j"
proof -
  from assms have "j = 0 \<or> j = 1 \<or> j = 2 \<or> j = 3 \<or> j = 4 \<or> j = 5 \<or> j = 6 \<or> j = 7
      \<or> j = 8 \<or> j = 9 \<or> j = 10 \<or> j = 11 \<or> j = 12 \<or> j = 13 \<or> j = 14 \<or> j = 15"
    by arith
  then show ?thesis by (elim disjE) (simp_all add: hexval_def)
qed

lemma hexval_hexdigit: "hexval (hexdigit k) = Some (k mod 16)"
  by (simp add: hexdigit_def hexval_digit)

lemma hex4_u_escape:
  assumes "n < 256"
  shows "hex4 (hexdigit (n div 4096)) (hexdigit (n div 256)) (hexdigit (n div 16)) (hexdigit n)
           = Some n"
proof -
  from assms have "n div 4096 = 0" "n div 256 = 0" "n div 16 mod 16 = n div 16" by simp_all
  then show ?thesis by (simp add: hex4_def hexval_hexdigit)
qed

lemma of_char_less_256: "(of_char (c::char) :: nat) < 256"
  by simp

lemma scanstring_replace: "scanstring (replace c @ t) = chunk (of_char c) (scanstring t)"
proof -
  have u: "scanstring (u_escape (of_char c) @ t) = chunk (of_char c) (scanstring t)"
    using hex4_u_escape [OF of_char_less_256, of c]
    by (simp add: u_escape_def backslash_def dquote_def)
  show ?thesis
    unfolding replace_def using u
    by (simp add: backslash_char_def backslash_def dquote_def)
qed

lemma scanstring_plain:
  "\<not> escape_ascii c \<Longrightarrow> scanstring (c # t) = chunk (of_char c) (scanstring t)"
  by (simp add: escape_ascii_def)

lemma scanstring_escaped:
  "scanstring (sub_escape_ascii s @ dquote # rest) = Scanned (codes s) rest"
proof (induction s)
  case Nil
  show ?case by (simp add: sub_escape_ascii_def codes_def)
next
  case (Cons c s)
  have "sub_escape_ascii (c # s) = (if escape_ascii c then replace c else [c]) @ sub_escape_ascii s"
    by (simp add: sub_escape_ascii_def)
  then show ?case
    using Cons.IH
    by (simp add: scanstring_replace scanstring_plain chunk_def codes_def del: scanstring.simps)
qed

subsection \<open>Whitespace\<close>

lemma skip_ws_indent: "skip_ws (newline_indent l @ t) = skip_ws t"
  by (simp add: skip_ws_def newline_indent_def whitespace_def newline_def dropWhile_append3
        dropWhile_append)

lemma skip_ws_stop: "\<not> whitespace c \<Longrightarrow> skip_ws (c # t) = c # t"
  by (simp add: skip_ws_def)

lemma skip_ws_space: "skip_ws (CHR '' '' # t) = skip_ws t"
  by (simp add: skip_ws_def whitespace_def)

lemma not_ws [simp]:
  "\<not> whitespace dquote" "\<not> whitespace CHR ''{''" "\<not> whitespace CHR ''}''"
  "\<not> whitespace CHR ''[''" "\<not> whitespace CHR '']''" "\<not> whitespace CHR '':''"
  "\<not> whitespace CHR '',''"
  by (simp_all add: whitespace_def dquote_def)

lemma dquote_neq [simp]:
  "dquote \<noteq> CHR ''}''" "dquote \<noteq> CHR '']''" "dquote \<noteq> CHR ''{''" "dquote \<noteq> CHR ''[''"
  "CHR ''}'' \<noteq> dquote" "CHR '']'' \<noteq> dquote" "CHR ''{'' \<noteq> dquote" "CHR ''['' \<noteq> dquote"
  by (simp_all add: dquote_def)

subsection \<open>A string value\<close>

lemma scan_once_string:
  "scan_once (Suc f) py d (encode_basestring_ascii s @ rest) = Scanned (JString (codes s)) rest"
  by (simp add: encode_basestring_ascii_def scanstring_escaped)

subsection \<open>Members\<close>

lemma dict_item_starts: "dict_item k v @ t = dquote # sub_escape_ascii k @ dquote # '': '' @ encode_basestring_ascii v @ t"
  by (simp add: dict_item_def encode_basestring_ascii_def)

lemma skip_ws_encoded:
  "skip_ws (encode_basestring_ascii v @ t) = encode_basestring_ascii v @ t"
  by (simp add: encode_basestring_ascii_def skip_ws_stop)

lemma parse_object_last:
  "parse_object (Suc (Suc f)) py d (dict_item k v @ newline_indent l @ CHR ''}'' # rest)
     = Scanned [(codes k, JString (codes v))] rest"
  by (simp add: dict_item_starts scanstring_escaped skip_ws_stop skip_ws_space scan_once_string
        skip_ws_indent skip_ws_encoded del: scan_once.simps)

lemma parse_object_more:
  "parse_object (Suc (Suc f)) py d (dict_item k v @ CHR '','' # newline_indent l @ dquote # nxt)
     = (case parse_object (Suc f) py d (dquote # nxt) of
          Scanned pairs rest \<Rightarrow> Scanned ((codes k, JString (codes v)) # pairs) rest
        | Raise e \<Rightarrow> Raise e
        | OutOfFuel \<Rightarrow> OutOfFuel)"
  apply (subst parse_object.simps(2))
  apply (simp add: dict_item_starts scanstring_escaped skip_ws_stop skip_ws_space scan_once_string
        skip_ws_indent skip_ws_encoded del: scan_once.simps parse_object.simps)
  done

subsection \<open>An object\<close>

lemma dict_text:
  "iterencode_dict l s @ rest =
     CHR ''{'' # newline_indent (l + 1)
     @ dict_item ''name'' (name s) @ CHR '','' # newline_indent (l + 1)
     @ dict_item ''description'' (description s) @ CHR '','' # newline_indent (l + 1)
     @ dict_item ''url'' (url s) @ CHR '','' # newline_indent (l + 1)
     @ dict_item ''found_date'' (found_date s) @ newline_indent l @ CHR ''}'' # rest"
  by (simp add: iterencode_dict_def)

lemma dict_item_dquote: "\<exists>t. dict_item k v @ rest = dquote # t"
  by (simp add: dict_item_def encode_basestring_ascii_def)

lemma scan_once_dict:
  "scan_once (Suc (Suc (Suc (Suc (Suc (Suc f)))))) py (Suc d) (iterencode_dict l s @ rest)
     = Scanned (startup_value s) rest"
proof -
  obtain t4 where t4: "dict_item ''found_date'' (found_date s) @ newline_indent l @ CHR ''}'' # rest
      = dquote # t4"
    using dict_item_dquote by blast
  obtain t3 where t3: "dict_item ''url'' (url s) @ CHR '','' # newline_indent (l + 1) @ dquote # t4
      = dquote # t3"
    using dict_item_dquote by blast
  obtain t2 where t2: "dict_item ''description'' (description s) @ CHR '','' # newline_indent (l + 1)
      @ dquote # t3 = dquote # t2"
    using dict_item_dquote by blast
  obtain t1 where t1: "dict_item ''name'' (name s) @ CHR '','' # newline_indent (l + 1)
      @ dquote # t2 = dquote # t1"
    using dict_item_dquote by blast
  have p4: "parse_object (Suc (Suc f)) py d (dquote # t4)
      = Scanned [(codes ''found_date'', JString (codes (found_date s)))] rest"
    unfolding t4 [symmetric] by (rule parse_object_last)
  have p3: "parse_object (Suc (Suc (Suc f))) py d (dquote # t3)
      = Scanned [(codes ''url'', JString (codes (url s))),
                 (codes ''found_date'', JString (codes (found_date s)))] rest"
    unfolding t3 [symmetric] by (simp only: parse_object_more p4 scanned.case)
  have p2: "parse_object (Suc (Suc (Suc (Suc f)))) py d (dquote # t2)
      = Scanned [(codes ''description'', JString (codes (description s))),
                 (codes ''url'', JString (codes (url s))),
                 (codes ''found_date'', JString (codes (found_date s)))] rest"
    unfolding t2 [symmetric] by (simp only: parse_object_more p3 scanned.case)
  have p1: "parse_object (Suc (Suc (Suc (Suc (Suc f))))) py d (dquote # t1)
      = Scanned [(codes ''name'', JString (codes (name s))),
                 (codes ''description'', JString (codes (description s))),
                 (codes ''url'', JString (codes (url s))),
                 (codes ''found_date'', JString (codes (found_date s)))] rest"
    unfolding t1 [symmetric] by (simp only: parse_object_more p2 scanned.case)
  have "iterencode_dict l s @ rest = CHR ''{'' # newline_indent (l + 1) @ dquote # t1"
    by (simp only: dict_text t4 t3 t2 t1)
  then show ?thesis
    apply (simp only:)
    apply (subst scan_once.simps(2))
    apply (simp add: skip_ws_indent skip_ws_stop p1 startup_value_def dquote_neq
        del: scan_once.simps parse_object.simps)
    done
qed

subsection \<open>An array\<close>

lemma dict_brace: "\<exists>t. iterencode_dict l s @ rest = CHR ''{'' # t"
  by (simp add: iterencode_dict_def)

lemma join_brace:
  "\<exists>t. join_items sep (map (iterencode_dict l) (x # xs)) @ rest = CHR ''{'' # t"
  by (cases xs) (simp_all add: iterencode_dict_def)

lemma parse_array_dicts:
  "length xs + 7 \<le> f \<Longrightarrow>
   parse_array f py (Suc d) (join_items (CHR '','' # newline_indent l) (map (iterencode_dict l) (x # xs))
                  @ newline_indent l' @ CHR '']'' # rest)
     = Scanned (map startup_value (x # xs)) rest"
proof (induction xs arbitrary: x f)
  case Nil
  then obtain g where "f = 7 + g"
    by (auto simp: le_iff_add)
  then have f: "f = Suc (Suc (Suc (Suc (Suc (Suc (Suc g))))))"
    by simp
  show ?case
    unfolding f
    apply (subst parse_array.simps(2))
    apply (simp add: scan_once_dict skip_ws_indent skip_ws_stop
        del: scan_once.simps parse_array.simps)
    done
next
  case (Cons y ys)
  then obtain g where "f = 7 + g" and "length ys + 1 \<le> g"
    by (auto simp: le_iff_add)
  then have f: "f = Suc (Suc (Suc (Suc (Suc (Suc (Suc g))))))"
    and g: "length ys + 7 \<le> Suc (Suc (Suc (Suc (Suc (Suc g)))))"
    by simp_all
  obtain t where t: "join_items (CHR '','' # newline_indent l) (map (iterencode_dict l) (y # ys))
                  @ newline_indent l' @ CHR '']'' # rest = CHR ''{'' # t"
    using join_brace by blast
  have ih: "parse_array (Suc (Suc (Suc (Suc (Suc (Suc g)))))) py (Suc d) (CHR ''{'' # t)
      = Scanned (map startup_value (y # ys)) rest"
    unfolding t [symmetric] by (rule Cons.IH [OF g])
  have "join_items (CHR '','' # newline_indent l) (map (iterencode_dict l) (x # y # ys))
                  @ newline_indent l' @ CHR '']'' # rest
      = iterencode_dict l x @ CHR '','' # newline_indent l @ CHR ''{'' # t"
    using t by simp
  then show ?case
    unfolding f
    apply (simp only:)
    apply (subst parse_array.simps(2))
    apply (simp add: scan_once_dict skip_ws_indent skip_ws_stop ih
        del: scan_once.simps parse_array.simps)
    done
qed

subsection \<open>The document\<close>

lemma length_join_dicts:
  "length xs \<le> length (join_items sep (map (iterencode_dict l) xs))"
proof (induction xs rule: induct_list012)
  case 1
  show ?case by simp
next
  case (2 x)
  show ?case by (simp add: iterencode_dict_def)
next
  case (3 x y zs)
  have "1 \<le> length (iterencode_dict l x)" by (simp add: iterencode_dict_def)
  with 3 show ?case by simp
qed

lemma decode_json_dump: "decode py (json_dump R) = Scanned (JArray (map startup_value R)) []"
proof (cases R)
  case Nil
  show ?thesis
    unfolding Nil
    by (simp add: json_dump_def iterencode_list_def decode_def depth_limit_def skip_ws_def
          whitespace_def dquote_def eval_nat_numeral)
next
  case (Cons x xs)
  let ?items = "join_items (CHR '','' # newline_indent 1) (map (iterencode_dict 1) (x # xs))"
  let ?doc = "CHR ''['' # newline_indent 1 @ ?items @ newline_indent 0 @ '']''"
  have dump: "json_dump R = ?doc"
    by (simp add: Cons json_dump_def iterencode_list_def)
  obtain t where t: "?items @ newline_indent 0 @ CHR '']'' # [] = CHR ''{'' # t"
    using join_brace by blast
  define F where "F = 2 * length ?doc + 1"
  have "length (x # xs) \<le> length ?items" by (rule length_join_dicts)
  then have fuel: "length xs + 7 \<le> F"
    by (simp add: F_def newline_indent_def)
  have items: "parse_array F py (Suc (recursion_room py)) (CHR ''{'' # t)
      = Scanned (map startup_value (x # xs)) []"
    unfolding t [symmetric] by (rule parse_array_dicts [OF fuel])
  have "?doc = CHR ''['' # newline_indent 1 @ CHR ''{'' # t"
    using t by simp
  then have whole: "scan_once (Suc F) py (depth_limit py) ?doc
      = Scanned (JArray (map startup_value (x # xs))) []"
    apply (simp only:)
    apply (subst scan_once.simps(2))
    apply (simp add: skip_ws_indent skip_ws_stop items dquote_neq depth_limit_def
        del: scan_once.simps parse_array.simps)
    done
  have F: "2 * length ?doc + 2 = Suc F" by (simp add: F_def)
  have "decode py ?doc = Scanned (JArray (map startup_value (x # xs))) []"
    unfolding decode_def F
    by (simp only: skip_ws_stop [OF not_ws(4)] whole scanned.case) (simp add: skip_ws_def)
  then show ?thesis unfolding dump by (simp only: Cons)
qed

lemma as_text_codes: "as_text (codes v) = Some v"
proof -
  have "list_all (\<lambda>n. n < 256) (map (of_char :: char \<Rightarrow> nat) v)" by (induction v) simp_all
  moreover have "map char_of (map (of_char :: char \<Rightarrow> nat) v) = v" by (induction v) simp_all
  ultimately show ?thesis by (simp add: as_text_def codes_def)
qed

lemma as_startup_value: "as_startup (startup_value s) = Some s"
  by (simp add: startup_value_def as_text_codes)

lemma as_startups_values: "as_startups (JArray (map startup_value R)) = Some R"
  by (induction R) (simp_all add: as_startup_value)

lemma names_raise_values: "names_raise (map startup_value R) = None"
  by (induction R) (simp_all add: startup_value_def)

lemma load_dumped:
  "data_file w = Some (Text (json_dump R)) \<Longrightarrow> load_existing py w = Inr R"
  using as_startups_values [of R]
  by (simp add: load_existing_def json_load_def decode_json_dump names_raise_values)

lemma load_existing_beyond:
  assumes "load_existing py w = Inl Beyond"
  shows "\<exists>s obj rest. data_file w = Some (Text s) \<and> decode py s = Scanned obj rest
           \<and> existing_names_raise obj = None \<and> as_startups obj = None"
  using assms decode_fuel [of py]
  by (auto simp: load_existing_def json_load_def
        split: option.splits file_content.splits scanned.splits if_splits)

text \<open>
  C8. Loading the data file that holds the text \<open>json.dump\<close> writes for a
  collection gives that collection, record for record, field for field, in the same
  order; and the collection that \<open>save_startups_data\<close> returns is the one a later
  load of the file it wrote gives.
\<close>

theorem store_round_trip:
  "load_existing py (w\<lparr>data_file := Some (Text (json_dump R))\<rparr>) = Inr R
   \<and> (load_existing py w = Inr E \<longrightarrow>
        (\<exists>r w'. save_startups_data py I w = Inr (r, w')
           \<and> heap w' r = merge E I
           \<and> data_file w' = Some (Text (json_dump (merge E I)))
           \<and> load_existing py w' = Inr (merge E I)))"
  by (simp add: load_dumped save_startups_data_loaded)

theorem store_round_trip_witness:
  "load_existing \<lparr>recursion_room = 900, int_max_str_digits = 4300\<rparr>
     \<lparr>data_file = None, results_file = None, heap = (\<lambda>a. []), next_addr = 0\<rparr>
     = Inr []
   \<and> (\<exists>r w'. save_startups_data \<lparr>recursion_room = 900, int_max_str_digits = 4300\<rparr>
                  (mock_startups ''2024-03-01'')
                  \<lparr>data_file = None, results_file = None, heap = (\<lambda>a. []), next_addr = 0\<rparr>
                = Inr (r, w')
         \<and> load_existing \<lparr>recursion_room = 900, int_max_str_digits = 4300\<rparr> w'
             = Inr (merge [] (mock_startups ''2024-03-01'')))"
proof -
  let ?py = "\<lparr>recursion_room = 900, int_max_str_digits = 4300\<rparr>"
  let ?w = "\<lparr>data_file = None, results_file = None, heap = (\<lambda>a. []), next_addr = 0\<rparr>"
  have l: "load_existing ?py ?w = Inr []" by (simp add: load_existing_def)
  from store_round_trip [where py = ?py and w = ?w and E = "[]"
      and I = "mock_startups ''2024-03-01''", THEN conjunct2, THEN mp, OF l]
  have "\<exists>r w'. save_startups_data ?py (mock_startups ''2024-03-01'') ?w = Inr (r, w')
         \<and> load_existing ?py w' = Inr (merge [] (mock_startups ''2024-03-01''))"
    by blast
  with l show ?thesis by (intro conjI)
qed

section \<open>A store that does not load\<close>

subsection \<open>An integer beyond the digit limit\<close>

lemma digits_ones:
  "takeWhile isdigit (replicate n CHR ''1'') = replicate n CHR ''1''"
  "dropWhile isdigit (replicate n CHR ''1'') = []"
  by (simp_all add: takeWhile_eq_all_conv dropWhile_eq_Nil_conv isdigit_def)

lemma match_number_ones:
  "match_number (CHR ''1'' # replicate n CHR ''1'') = Some (CHR ''1'' # replicate n CHR ''1'', [])"
  by (simp add: match_number_def digits_ones fraction_def exponent_def isdigit_def)

lemma int_too_long_ones:
  "int_too_long py (CHR ''1'' # replicate n CHR ''1'')
     \<longleftrightarrow> 0 < int_max_str_digits py \<and> int_max_str_digits py < Suc n"
  by (simp add: int_too_long_def is_float_def list_ex_iff isdigit_def)

lemma scan_once_ones:
  "scan_once (Suc f) py d (CHR ''1'' # replicate n CHR ''1'')
     = (if 0 < int_max_str_digits py \<and> int_max_str_digits py < Suc n then Raise ValueError
        else Scanned (JNumber (CHR ''1'' # replicate n CHR ''1'')) [])"
proof -
  have "scan_once (Suc f) py d (CHR ''1'' # replicate n CHR ''1'')
     = (case match_number (CHR ''1'' # replicate n CHR ''1'') of
          None \<Rightarrow> Raise JSONDecodeError
        | Some (lexeme, rest) \<Rightarrow>
            if int_too_long py lexeme then Raise ValueError
            else Scanned (JNumber lexeme) rest)"
    by (simp add: dquote_def)
  then show ?thesis
    by (simp only: match_number_ones int_too_long_ones option.case prod.case)
qed

lemma parse_array_ones:
  "parse_array (Suc (Suc f)) py d (CHR ''1'' # replicate n CHR ''1'')
     = (if 0 < int_max_str_digits py \<and> int_max_str_digits py < Suc n then Raise ValueError
        else Raise JSONDecodeError)"
  by (subst parse_array.simps(2))
     (simp add: scan_once_ones skip_ws_def del: scan_once.simps parse_array.simps)

lemma decode_open_ones:
  "decode py (CHR ''['' # CHR ''1'' # replicate n CHR ''1'')
     = (if 0 < int_max_str_digits py \<and> int_max_str_digits py < Suc n then Raise ValueError
        else Raise JSONDecodeError)"
proof -
  let ?ones = "CHR ''1'' # replicate n CHR ''1''"
  have f: "2 * length (CHR ''['' # ?ones) + 2 = Suc (Suc (Suc (2 * n + 3)))" by simp
  have w: "skip_ws ?ones = ?ones" "skip_ws (CHR ''['' # ?ones) = CHR ''['' # ?ones"
    by (simp_all add: skip_ws_def whitespace_def)
  have v: "scan_once (Suc (Suc (Suc g))) py (depth_limit py) (CHR ''['' # ?ones)
     = (if 0 < int_max_str_digits py \<and> int_max_str_digits py < Suc n then Raise ValueError
        else Raise JSONDecodeError)" for g
    by (subst scan_once.simps(2))
       (simp add: depth_limit_def dquote_def w(1) parse_array_ones
          del: scan_once.simps parse_array.simps)
  show ?thesis
    unfolding decode_def f w(2) v by simp
qed

subsection \<open>Arrays nested beyond the recursion limit\<close>

lemma skip_ws_brackets:
  "skip_ws (replicate n CHR ''['') = replicate n CHR ''[''"
  by (cases n) (simp_all add: skip_ws_def whitespace_def)

lemma scan_once_deep_brackets:
  "d < n \<Longrightarrow> 2 * d < f \<Longrightarrow> scan_once f py d (replicate n CHR ''['') = Raise RecursionError"
proof (induction d arbitrary: n f)
  case 0
  then have "f = Suc (f - 1)" "n = Suc (n - 1)" by simp_all
  then obtain g m where f: "f = Suc g" and n: "n = Suc m" by blast
  show ?case unfolding f n by (simp add: dquote_def)
next
  case (Suc d)
  define g m where "g = f - 2" and "m = n - 2"
  with Suc.prems have f: "f = Suc (Suc g)" and n: "n = Suc (Suc m)"
    and g: "2 * d < g" and m: "d < Suc m"
    by simp_all
  have inner: "scan_once g py d (CHR ''['' # replicate m CHR ''['') = Raise RecursionError"
    using Suc.IH [OF m g] by simp
  have arr: "parse_array (Suc g) py d (CHR ''['' # replicate m CHR ''['') = Raise RecursionError"
    by (subst parse_array.simps(2)) (simp add: inner del: scan_once.simps parse_array.simps)
  have w: "skip_ws (CHR ''['' # replicate m CHR ''['') = CHR ''['' # replicate m CHR ''[''"
    using skip_ws_brackets [of "Suc m"] by simp
  show ?case
    unfolding f n
    by (subst scan_once.simps(2))
       (simp add: dquote_def w arr del: scan_once.simps parse_array.simps)
qed

lemma decode_deep_brackets:
  "depth_limit py < n \<Longrightarrow> decode py (replicate n CHR ''['') = Raise RecursionError"
proof -
  assume n: "depth_limit py < n"
  then have "2 * depth_limit py < 2 * length (replicate n CHR ''['') + 2" by simp
  from scan_once_deep_brackets [OF n this, of py] show ?thesis
    by (simp add: decode_def skip_ws_brackets del: scan_once.simps)
qed

subsection \<open>What the load catches\<close>

lemma load_existing_raises:
  assumes "data_file w = Some content" and "json_load py content = Raise e"
    and "e \<noteq> JSONDecodeError"
  shows "load_existing py w = Inl (Raises e)"
  using assms by (simp add: load_existing_def)

text \<open>
  C7, as the claim states it, fails: a store that is not syntactically valid JSON can
  make \<open>json.load\<close> raise something else than \<open>JSONDecodeError\<close>, which the load
  does not catch. With the default limit of 4300 digits, the store that holds an opening
  bracket and 4301 times the digit 1 makes the conversion of the integer raise
  \<open>ValueError\<close>: the load raises it, and so does the run without credentials.
\<close>

theorem long_integer_store_fails_the_run:
  "\<not> syntactically_valid (CHR ''['' # replicate 4301 CHR ''1'')
   \<and> load_existing \<lparr>recursion_room = 900, int_max_str_digits = 4300\<rparr>
        \<lparr>data_file = Some (Text (CHR ''['' # replicate 4301 CHR ''1'')),
         results_file = None, heap = (\<lambda>a. []), next_addr = 0\<rparr>
     = Inl (Raises ValueError)
   \<and> run \<lparr>recursion_room = 900, int_max_str_digits = 4300\<rparr> ''2024-03-01''
        \<lparr>driver_starts = False, login_steps = False, result_cards = None\<rparr> None None
        \<lparr>data_file = Some (Text (CHR ''['' # replicate 4301 CHR ''1'')),
         results_file = None, heap = (\<lambda>a. []), next_addr = 0\<rparr>
     = Inl (Raises ValueError)"
proof -
  let ?py = "\<lparr>recursion_room = 900, int_max_str_digits = 4300\<rparr>"
  let ?s = "CHR ''['' # replicate 4301 CHR ''1''"
  let ?w = "\<lparr>data_file = Some (Text ?s), results_file = None, heap = (\<lambda>a. []),
             next_addr = 0\<rparr>"
  have "(4301::nat) = Suc 4300" by simp
  then have s: "?s = CHR ''['' # CHR ''1'' # replicate 4300 CHR ''1''"
    by (simp only: replicate_Suc)
  have d: "decode ?py ?s = Raise ValueError"
    unfolding s by (simp add: decode_open_ones)
  have g: "decode \<lparr>recursion_room = length ?s, int_max_str_digits = 0\<rparr> ?s
      = Raise JSONDecodeError"
    unfolding s by (simp only: decode_open_ones) simp
  have v: "\<not> syntactically_valid ?s"
    unfolding syntactically_valid_def g by simp
  have l: "load_existing ?py ?w = Inl (Raises ValueError)"
    by (rule load_existing_raises [where content = "Text ?s"])
       (simp_all add: json_load_def d)
  have r: "run ?py ''2024-03-01''
        \<lparr>driver_starts = False, login_steps = False, result_cards = None\<rparr> None None ?w
      = Inl (Raises ValueError)"
    by (simp add: run_def py_not_def save_startups_data_stops [OF l])
  from v l r show ?thesis by (intro conjI)
qed

text \<open>
  C7, amended. When the data file does not exist, or \<open>json.load\<close> raises
  \<open>JSONDecodeError\<close> on its text, the collection loaded is empty;
  \<open>save_startups_data\<close> then merges the incoming batch into the empty collection and
  writes it; and the run, unless the session fails, ends with the merged batch in the
  data file and its report in the results file. The run then never ends in an
  exception.
\<close>

theorem load_missing_or_decode_error_is_empty:
  assumes "data_file w = None
      \<or> (\<exists>s. data_file w = Some (Text s) \<and> decode py s = Raise JSONDecodeError)"
  shows "load_existing py w = Inr []
   \<and> (\<exists>r w'. save_startups_data py I w = Inr (r, w')
         \<and> heap w' r = merge [] I \<and> data_file w' = Some (Text (json_dump (merge [] I))))
   \<and> (\<exists>w'. run py today sess u p w = Inr w')
   \<and> (py_not u \<or> py_not p \<or> (driver_starts sess \<and> login_to_linkedin sess) \<longrightarrow>
        (\<exists>w'. run py today sess u p w = Inr w'
           \<and> data_file w' =
               Some (Text (json_dump (merge []
                 (if py_not u \<or> py_not p then mock_startups today
                  else search_yc_ai_startups today (result_cards sess)))))
           \<and> results_file w' =
               Some (readme_content today (list_sort_reverse found_date (merge []
                 (if py_not u \<or> py_not p then mock_startups today
                  else search_yc_ai_startups today (result_cards sess)))))))"
proof -
  from assms have l: "load_existing py w = Inr []"
    by (auto simp: load_existing_def json_load_def)
  have s: "\<exists>r w'. save_startups_data py I w = Inr (r, w')
         \<and> heap w' r = merge [] I \<and> data_file w' = Some (Text (json_dump (merge [] I)))"
    by (simp add: save_startups_data_loaded [OF l])
  have r1: "\<exists>w'. run py today sess u p w = Inr w'"
    by (simp add: run_def Let_def save_startups_data_loaded [OF l])
  have r2: "py_not u \<or> py_not p \<or> (driver_starts sess \<and> login_to_linkedin sess) \<longrightarrow>
        (\<exists>w'. run py today sess u p w = Inr w'
           \<and> data_file w' =
               Some (Text (json_dump (merge []
                 (if py_not u \<or> py_not p then mock_startups today
                  else search_yc_ai_startups today (result_cards sess)))))
           \<and> results_file w' =
               Some (readme_content today (list_sort_reverse found_date (merge []
                 (if py_not u \<or> py_not p then mock_startups today
                  else search_yc_ai_startups today (result_cards sess))))))"
    by (auto simp: run_def Let_def save_startups_data_loaded [OF l] update_readme_fields)
  from l s r1 r2 show ?thesis by blast
qed

theorem load_missing_or_decode_error_is_empty_witness:
  "decode \<lparr>recursion_room = 900, int_max_str_digits = 4300\<rparr> ''[{name: oops''
     = Raise JSONDecodeError
   \<and> load_existing \<lparr>recursion_room = 900, int_max_str_digits = 4300\<rparr>
        \<lparr>data_file = Some (Text ''[{name: oops''), results_file = None,
         heap = (\<lambda>a. []), next_addr = 0\<rparr> = Inr []
   \<and> (\<exists>w'. run \<lparr>recursion_room = 900, int_max_str_digits = 4300\<rparr> ''2024-03-01''
              \<lparr>driver_starts = False, login_steps = False, result_cards = None\<rparr> None None
              \<lparr>data_file = Some (Text ''[{name: oops''), results_file = None,
                heap = (\<lambda>a. []), next_addr = 0\<rparr> = Inr w'
         \<and> data_file w' = Some (Text (json_dump (merge [] (mock_startups ''2024-03-01'')))))"
proof -
  let ?py = "\<lparr>recursion_room = 900, int_max_str_digits = 4300\<rparr>"
  let ?w = "\<lparr>data_file = Some (Text ''[{name: oops''), results_file = None,
              heap = (\<lambda>a. []), next_addr = 0\<rparr>"
  let ?sess = "\<lparr>driver_starts = False, login_steps = False, result_cards = None\<rparr>"
  have d: "decode ?py ''[{name: oops'' = Raise JSONDecodeError" by code_simp
  then have h: "data_file ?w = None
      \<or> (\<exists>s. data_file ?w = Some (Text s) \<and> decode ?py s = Raise JSONDecodeError)"
    by simp
  have n: "py_not None \<or> py_not None \<or> (driver_starts ?sess \<and> login_to_linkedin ?sess)"
    by (simp add: py_not_def)
  note T = load_missing_or_decode_error_is_empty
    [OF h, where I = "[]" and today = "''2024-03-01''" and sess = ?sess and u = None
      and p = None]
  have a: "load_existing ?py ?w = Inr []" by (rule T [THEN conjunct1])
  from T [THEN conjunct2, THEN conjunct2, THEN conjunct2, THEN mp, OF n]
  have b: "\<exists>w'. run ?py ''2024-03-01'' ?sess None None ?w = Inr w'
         \<and> data_file w' = Some (Text (json_dump (merge [] (mock_startups ''2024-03-01''))))"
    by (auto simp: py_not_def)
  from d a b show ?thesis by (intro conjI)
qed

end
